theory Spec2Isabelle
  imports Main
begin

section \<open>The LokiJS executor of WatermelonDB\<close>

text \<open>
  A shallow embedding of \<^verbatim>\<open>src/adapters/lokijs/worker/executor.js\<close>: the class
  \<^verbatim>\<open>LokiExecutor\<close>, its record cache, its CRUD and batch operations, its local
  storage and its schema migrations. The object \<^verbatim>\<open>this\<close> is a record that every
  method takes and returns; a JavaScript exception is the left summand of the result and
  carries the executor as the exception left it, because the methods mutate the executor
  before they throw.
\<close>

subsection \<open>Values and raw records\<close>

type_synonym TableName = string
type_synonym RecordId = string

text \<open>
  A schema version is a JavaScript number that holds an integer; it is given by that
  integer.
\<close>

type_synonym SchemaVersion = int

text \<open>The scalar values a property of a record holds; an absent property is \<open>None\<close>.\<close>

datatype val = Null | Bool bool | Num int | Str string

text \<open>
  A raw record is a JavaScript object with the property \<^verbatim>\<open>id\<close>, typed
  \<^verbatim>\<open>RecordId\<close>, and any other property: \<^verbatim>\<open>_status\<close>, the columns of the table, and,
  once the store holds it, the store's internal identity \<^verbatim>\<open>$loki\<close>.
\<close>

record RawRecord =
  raw_id :: RecordId
  props :: "string \<rightharpoonup> val"

definition loki_of :: "RawRecord \<Rightarrow> val option" where
  "loki_of d = props d ''$loki''"

definition set_loki :: "RawRecord \<Rightarrow> val option \<Rightarrow> RawRecord" where
  "set_loki d l = d\<lparr>props := (props d)(''$loki'' := l)\<rparr>"

datatype error =
    TypeError
  | StoreError string
  | UnsupportedMigrationStep string

subsection \<open>The store\<close>

text \<open>
  Modelled from the spec: the store (the LokiJS library) is an external collaborator that
  is not part of the sources. A collection has a uniqueness constraint on \<^verbatim>\<open>id\<close>, a
  list of indexed fields, and gives every inserted document an internal identity
  \<^verbatim>\<open>$loki\<close>, the next value of a counter; \<^verbatim>\<open>update\<close> and \<^verbatim>\<open>remove\<close> address a
  document by that internal identity, \<^verbatim>\<open>by\<close> is the point lookup on the unique field.
  The documents are kept in insertion order.
\<close>

record Collection =
  data :: "RawRecord list"
  maxId :: int
  binaryIndices :: "string list"

definition coll_by_id :: "Collection \<Rightarrow> RecordId \<Rightarrow> RawRecord option" where
  "coll_by_id c x = find (\<lambda>d. raw_id d = x) (data c)"

definition coll_get :: "Collection \<Rightarrow> val option \<Rightarrow> RawRecord option" where
  "coll_get c l = find (\<lambda>d. loki_of d = l) (data c)"

definition coll_insert :: "Collection \<Rightarrow> RawRecord \<Rightarrow> error + Collection" where
  "coll_insert c d =
     (if loki_of d \<noteq> None then Inl (StoreError ''Document is already in collection'')
      else if coll_by_id c (raw_id d) \<noteq> None then Inl (StoreError ''Duplicate key'')
      else Inr (c\<lparr>data := data c @ [set_loki d (Some (Num (maxId c + 1)))],
                  maxId := maxId c + 1\<rparr>))"

definition coll_update :: "Collection \<Rightarrow> RawRecord \<Rightarrow> error + Collection" where
  "coll_update c d =
     (case loki_of d of
        Some (Num l) \<Rightarrow>
          (case coll_get c (Some (Num l)) of
             None \<Rightarrow> Inl (StoreError ''Trying to update unsynced document'')
           | Some old \<Rightarrow>
               if raw_id old \<noteq> raw_id d \<and> coll_by_id c (raw_id d) \<noteq> None
               then Inl (StoreError ''Duplicate key'')
               else Inr (c\<lparr>data := map (\<lambda>e. if loki_of e = Some (Num l) then d else e) (data c)\<rparr>))
      | _ \<Rightarrow> Inl (StoreError ''Trying to update unsynced document''))"

definition coll_remove :: "Collection \<Rightarrow> RawRecord option \<Rightarrow> error + Collection" where
  "coll_remove c r =
     (case r of
        None \<Rightarrow> Inl (StoreError ''Parameter is not an object'')
      | Some d \<Rightarrow>
          (case loki_of d of
             Some (Num l) \<Rightarrow>
               (case coll_get c (Some (Num l)) of
                  None \<Rightarrow> Inl (StoreError ''Object is not a document stored in the collection'')
                | Some _ \<Rightarrow> Inr (c\<lparr>data := filter (\<lambda>e. loki_of e \<noteq> Some (Num l)) (data c)\<rparr>))
           | _ \<Rightarrow> Inl (StoreError ''Object is not a document stored in the collection'')))"

text \<open>
  What the store does with a request it cannot serve is its own affair; the model takes
  LokiJS at its word and makes each a store error: an insert of a document that carries
  an internal identity or a used id, an update of a document without a known internal
  identity, a \<^verbatim>\<open>remove\<close> of \<^verbatim>\<open>undefined\<close> or of a document the collection does not
  hold. A bulk update visits every document in order; building an index on a field adds
  the field to the indexed ones.
\<close>

definition coll_findAndUpdate :: "Collection \<Rightarrow> (RawRecord \<Rightarrow> RawRecord) \<Rightarrow> Collection" where
  "coll_findAndUpdate c f = c\<lparr>data := map f (data c)\<rparr>"

definition coll_ensureIndex :: "Collection \<Rightarrow> string \<Rightarrow> Collection" where
  "coll_ensureIndex c f =
     (if f \<in> set (binaryIndices c) then c else c\<lparr>binaryIndices := binaryIndices c @ [f]\<rparr>)"

text \<open>
  The consistency the store keeps by itself: ids are unique, every document carries an
  internal identity that the counter has already passed, and no two documents share one.
\<close>

definition has_loki_upto :: "int \<Rightarrow> RawRecord \<Rightarrow> bool" where
  "has_loki_upto m d = (case loki_of d of Some (Num l) \<Rightarrow> l \<le> m | _ \<Rightarrow> False)"

definition wf_collection :: "Collection \<Rightarrow> bool" where
  "wf_collection c \<longleftrightarrow>
     distinct (map raw_id (data c)) \<and>
     distinct (map loki_of (data c)) \<and>
     list_all (has_loki_upto (maxId c)) (data c)"

text \<open>
  An assignment to a property of the document that \<^verbatim>\<open>by\<close> returned: the collection
  holds that very object, so the assignment is visible in the collection at once.
\<close>

fun mutate_first :: "('a \<Rightarrow> bool) \<Rightarrow> ('a \<Rightarrow> 'a) \<Rightarrow> 'a list \<Rightarrow> 'a list" where
  "mutate_first P f [] = []"
| "mutate_first P f (d # ds) = (if P d then f d # ds else d # mutate_first P f ds)"

definition coll_assign :: "Collection \<Rightarrow> RecordId \<Rightarrow> (RawRecord \<Rightarrow> RawRecord) \<Rightarrow> Collection" where
  "coll_assign c x f = c\<lparr>data := mutate_first (\<lambda>d. raw_id d = x) f (data c)\<rparr>"

text \<open>
  The collection \<^verbatim>\<open>local_storage\<close> that \<^verbatim>\<open>_setUpSchema\<close> creates has its uniqueness
  constraint on \<^verbatim>\<open>key\<close>, not on \<^verbatim>\<open>id\<close>. Its documents are objects with the
  properties \<^verbatim>\<open>key\<close> and \<^verbatim>\<open>value\<close>, and whatever else a caller that names the
  collection as a table puts there, so a document is the map of all its properties. An
  insert is refused when the document carries an internal identity or a key that is in
  use; a document without a key is not indexed by key.
\<close>

type_synonym document = "string \<rightharpoonup> val"

record LocalCollection =
  local_data :: "document list"
  local_maxId :: int
  local_indices :: "string list"

definition local_by_key :: "LocalCollection \<Rightarrow> string \<Rightarrow> document option" where
  "local_by_key l k = find (\<lambda>d. d ''key'' = Some (Str k)) (local_data l)"

definition key_taken :: "LocalCollection \<Rightarrow> document \<Rightarrow> bool" where
  "key_taken l d =
     (case d ''key'' of
        None \<Rightarrow> False
      | Some Null \<Rightarrow> False
      | Some v \<Rightarrow> list_ex (\<lambda>e. e ''key'' = Some v) (local_data l))"

definition local_insert :: "LocalCollection \<Rightarrow> document \<Rightarrow> error + LocalCollection" where
  "local_insert l d =
     (if d ''$loki'' \<noteq> None then Inl (StoreError ''Document is already in collection'')
      else if key_taken l d then Inl (StoreError ''Duplicate key'')
      else Inr (l\<lparr>local_data := local_data l @ [d(''$loki'' \<mapsto> Num (local_maxId l + 1))],
                  local_maxId := local_maxId l + 1\<rparr>))"

definition local_assign :: "LocalCollection \<Rightarrow> string \<Rightarrow> (document \<Rightarrow> document) \<Rightarrow> LocalCollection" where
  "local_assign l k f =
     l\<lparr>local_data := mutate_first (\<lambda>d. d ''key'' = Some (Str k)) f (local_data l)\<rparr>"

definition local_remove :: "LocalCollection \<Rightarrow> string \<Rightarrow> LocalCollection" where
  "local_remove l k = l\<lparr>local_data := filter (\<lambda>d. d ''key'' \<noteq> Some (Str k)) (local_data l)\<rparr>"

definition local_findAndUpdate :: "LocalCollection \<Rightarrow> (document \<Rightarrow> document) \<Rightarrow> LocalCollection" where
  "local_findAndUpdate l f = l\<lparr>local_data := map f (local_data l)\<rparr>"

definition local_ensureIndex :: "LocalCollection \<Rightarrow> string \<Rightarrow> LocalCollection" where
  "local_ensureIndex l f =
     (if f \<in> set (local_indices l) then l else l\<lparr>local_indices := local_indices l @ [f]\<rparr>)"

text \<open>
  The database is one space of named collections. A collection with the unique field
  \<^verbatim>\<open>id\<close>, which is what \<^verbatim>\<open>_addCollection\<close> creates under any name, is an entry of
  \<open>collections\<close>; the collection \<^verbatim>\<open>local_storage\<close> with the unique field \<^verbatim>\<open>key\<close>
  is the field \<open>local_storage\<close>. \<^verbatim>\<open>addCollection\<close> returns the collection that exists
  under a name rather than create a second one, so a database has at most one collection
  named \<^verbatim>\<open>local_storage\<close>, of the one kind or the other; \<open>lookupCollection\<close> is
  \<^verbatim>\<open>getCollection\<close>, with the kind of the collection it finds.
\<close>

record Loki =
  collections :: "TableName \<rightharpoonup> Collection"
  local_storage :: "LocalCollection option"

datatype AnyCollection =
    NoCollection
  | TableCollection Collection
  | KeyValueCollection LocalCollection

definition lookupCollection :: "Loki \<Rightarrow> string \<Rightarrow> AnyCollection" where
  "lookupCollection db nm =
     (case collections db nm of
        Some c \<Rightarrow> TableCollection c
      | None \<Rightarrow>
          if nm = ''local_storage''
          then (case local_storage db of
                  Some l \<Rightarrow> KeyValueCollection l
                | None \<Rightarrow> NoCollection)
          else NoCollection)"

text \<open>
  \<^verbatim>\<open>getCollection\<close> as the operations on records use it, that is followed by
  \<^verbatim>\<open>by('id', ...)\<close>: the collection of that name that has the unique field
  \<^verbatim>\<open>id\<close>. Where it is \<open>None\<close>, either the database has no collection of that name, or
  the collection is \<^verbatim>\<open>local_storage\<close> with its unique field \<^verbatim>\<open>key\<close>; the call of
  \<^verbatim>\<open>by\<close> throws a TypeError in both cases.
\<close>

definition getCollection :: "Loki \<Rightarrow> TableName \<Rightarrow> Collection option" where
  "getCollection db table = collections db table"

definition setCollection :: "Loki \<Rightarrow> TableName \<Rightarrow> Collection \<Rightarrow> Loki" where
  "setCollection db table c = db\<lparr>collections := (collections db)(table \<mapsto> c)\<rparr>"

definition addCollection :: "Loki \<Rightarrow> TableName \<Rightarrow> string list \<Rightarrow> Loki" where
  "addCollection db nm indices =
     (case lookupCollection db nm of
        NoCollection \<Rightarrow> setCollection db nm \<lparr>data = [], maxId = 0, binaryIndices = indices\<rparr>
      | _ \<Rightarrow> db)"

definition addLocalStorage :: "Loki \<Rightarrow> Loki" where
  "addLocalStorage db =
     (case lookupCollection db ''local_storage'' of
        NoCollection \<Rightarrow>
          db\<lparr>local_storage := Some \<lparr>local_data = [], local_maxId = 0, local_indices = []\<rparr>\<rparr>
      | _ \<Rightarrow> db)"

definition emptyLoki :: Loki where
  "emptyLoki = \<lparr>collections = Map.empty, local_storage = None\<rparr>"

subsection \<open>Schema and executor\<close>

record ColumnSchema =
  name :: string
  isIndexed :: bool
  isSearchable :: bool

record TableSchema =
  table_name :: TableName
  columns :: "ColumnSchema list"

text \<open>
  The tables of a schema, an object keyed by table name, in the order \<^verbatim>\<open>values\<close>
  lists them.
\<close>

record AppSchema =
  version :: SchemaVersion
  tables :: "(TableName \<times> TableSchema) list"

text \<open>
  A migration step is an object with the tag \<^verbatim>\<open>type\<close>, the table it is about
  (\<^verbatim>\<open>name\<close> in a step of type \<^verbatim>\<open>create_table\<close>, \<^verbatim>\<open>table\<close> in one of type
  \<^verbatim>\<open>add_columns\<close>) and the columns.
\<close>

datatype MigrationStep =
  MigrationStep (step_type: string) (step_table: TableName) (step_columns: "ColumnSchema list")

text \<open>
  The declared migrations are used through \<^verbatim>\<open>stepsForMigration\<close> only, a helper that
  is not part of the sources: they are represented by that resolver, from the version of
  the database and the version of the schema to the steps, \<open>None\<close> for \<^verbatim>\<open>null\<close>.
\<close>

type_synonym SchemaMigrations = "SchemaVersion \<Rightarrow> SchemaVersion \<Rightarrow> MigrationStep list option"

record LokiExecutor =
  schema :: AppSchema
  migrations :: "SchemaMigrations option"
  loki :: Loki
  cachedRecords :: "TableName \<rightharpoonup> RecordId set"

datatype CachedFindResult = Bare RecordId | Full RawRecord | Absent

type_synonym 'a result = "(error \<times> LokiExecutor) + 'a"

text \<open>
  Modelled from the spec: \<^verbatim>\<open>sanitizedRaw\<close> belongs to the module RawRecord, which is
  not part of the sources. It is a pure function of the record and the schema of the
  table, the parameter \<open>san\<close> of the operations that call it; it reads the columns of
  the table schema, so that a call with \<^verbatim>\<open>undefined\<close> for the schema, which is what
  \<^verbatim>\<open>this.schema.tables[table]\<close> is for a name the schema does not have, throws a
  TypeError.
\<close>

type_synonym sanitizer = "RawRecord \<Rightarrow> TableSchema \<Rightarrow> RawRecord"

definition with_collection :: "LokiExecutor \<Rightarrow> TableName \<Rightarrow> Collection \<Rightarrow> LokiExecutor" where
  "with_collection ex table c = ex\<lparr>loki := setCollection (loki ex) table c\<rparr>"

definition with_local :: "LokiExecutor \<Rightarrow> LocalCollection \<Rightarrow> LokiExecutor" where
  "with_local ex l = ex\<lparr>loki := (loki ex)\<lparr>local_storage := Some l\<rparr>\<rparr>"

subsection \<open>The record cache\<close>

definition isCached :: "LokiExecutor \<Rightarrow> TableName \<Rightarrow> RecordId \<Rightarrow> bool" where
  "isCached ex table x =
     (case cachedRecords ex table of Some cachedSet \<Rightarrow> x \<in> cachedSet | None \<Rightarrow> False)"

definition markAsCached :: "LokiExecutor \<Rightarrow> TableName \<Rightarrow> RecordId \<Rightarrow> LokiExecutor" where
  "markAsCached ex table x =
     (case cachedRecords ex table of
        Some cachedSet \<Rightarrow> ex\<lparr>cachedRecords := (cachedRecords ex)(table \<mapsto> insert x cachedSet)\<rparr>
      | None \<Rightarrow> ex\<lparr>cachedRecords := (cachedRecords ex)(table \<mapsto> {x})\<rparr>)"

definition removeFromCache :: "LokiExecutor \<Rightarrow> TableName \<Rightarrow> RecordId \<Rightarrow> LokiExecutor" where
  "removeFromCache ex table x =
     (case cachedRecords ex table of
        Some cachedSet \<Rightarrow> ex\<lparr>cachedRecords := (cachedRecords ex)(table \<mapsto> cachedSet - {x})\<rparr>
      | None \<Rightarrow> ex)"

subsection \<open>Reading and writing records\<close>

text \<open>
  \<^verbatim>\<open>find\<close> marks the id as cached before it calls \<^verbatim>\<open>sanitizedRaw\<close>, so the mark
  stays when that call throws.
\<close>

definition find_record ::
  "sanitizer \<Rightarrow> LokiExecutor \<Rightarrow> TableName \<Rightarrow> RecordId \<Rightarrow> (CachedFindResult \<times> LokiExecutor) result" where
  "find_record san ex table x =
     (if isCached ex table x then Inr (Bare x, ex)
      else case getCollection (loki ex) table of
        None \<Rightarrow> Inl (TypeError, ex)
      | Some c \<Rightarrow>
          (case coll_by_id c x of
             None \<Rightarrow> Inr (Absent, ex)
           | Some raw \<Rightarrow>
               (case map_of (tables (schema ex)) table of
                  None \<Rightarrow> Inl (TypeError, markAsCached ex table x)
                | Some tableSchema \<Rightarrow>
                    Inr (Full (san raw tableSchema), markAsCached ex table x))))"

text \<open>
  \<^verbatim>\<open>create\<close> calls \<^verbatim>\<open>insert\<close>, which every collection has: under the name
  \<^verbatim>\<open>local_storage\<close> the record goes, with its id as one more property, into the
  collection of the local storage.
\<close>

definition document_of :: "RawRecord \<Rightarrow> document" where
  "document_of raw = (props raw)(''id'' \<mapsto> Str (raw_id raw))"

definition create :: "LokiExecutor \<Rightarrow> TableName \<Rightarrow> RawRecord \<Rightarrow> LokiExecutor result" where
  "create ex table raw =
     (case getCollection (loki ex) table of
        None \<Rightarrow>
          (case lookupCollection (loki ex) table of
             KeyValueCollection l \<Rightarrow>
               (case local_insert l (document_of raw) of
                  Inl e \<Rightarrow> Inl (e, ex)
                | Inr l' \<Rightarrow> Inr (markAsCached (with_local ex l') table (raw_id raw)))
           | _ \<Rightarrow> Inl (TypeError, ex))
      | Some c \<Rightarrow>
          (case coll_insert c raw of
             Inl e \<Rightarrow> Inl (e, ex)
           | Inr c' \<Rightarrow> Inr (markAsCached (with_collection ex table c') table (raw_id raw))))"

definition update :: "LokiExecutor \<Rightarrow> TableName \<Rightarrow> RawRecord \<Rightarrow> LokiExecutor result" where
  "update ex table rawRecord =
     (case getCollection (loki ex) table of
        None \<Rightarrow> Inl (TypeError, ex)
      | Some collection \<Rightarrow>
          (case coll_by_id collection (raw_id rawRecord) of
             None \<Rightarrow> Inl (TypeError, ex)
           | Some saved \<Rightarrow>
               (let lokiId = loki_of saved;
                    raw = set_loki rawRecord lokiId
                in case coll_update collection raw of
                     Inl e \<Rightarrow> Inl (e, ex)
                   | Inr c' \<Rightarrow> Inr (with_collection ex table c'))))"

definition destroyPermanently :: "LokiExecutor \<Rightarrow> TableName \<Rightarrow> RecordId \<Rightarrow> LokiExecutor result" where
  "destroyPermanently ex table x =
     (case getCollection (loki ex) table of
        None \<Rightarrow> Inl (TypeError, ex)
      | Some collection \<Rightarrow>
          (let record = coll_by_id collection x
           in case coll_remove collection record of
                Inl e \<Rightarrow> Inl (e, ex)
              | Inr c' \<Rightarrow> Inr (removeFromCache (with_collection ex table c') table x)))"

definition set_status :: "RawRecord \<Rightarrow> RawRecord" where
  "set_status record = record\<lparr>props := (props record)(''_status'' \<mapsto> Str ''deleted'')\<rparr>"

definition markAsDeleted :: "LokiExecutor \<Rightarrow> TableName \<Rightarrow> RecordId \<Rightarrow> LokiExecutor result" where
  "markAsDeleted ex table x =
     (case getCollection (loki ex) table of
        None \<Rightarrow> Inl (TypeError, ex)
      | Some collection \<Rightarrow>
          (case coll_by_id collection x of
             None \<Rightarrow> Inr ex
           | Some record \<Rightarrow>
               (let assigned = coll_assign collection x set_status
                in case coll_update assigned (set_status record) of
                     Inl e \<Rightarrow> Inl (e, with_collection ex table assigned)
                   | Inr c' \<Rightarrow> Inr (removeFromCache (with_collection ex table c') table x))))"




fun destroyDeletedRecords :: "LokiExecutor \<Rightarrow> TableName \<Rightarrow> RecordId list \<Rightarrow> LokiExecutor result" where
  "destroyDeletedRecords ex table [] = Inr ex"
| "destroyDeletedRecords ex table (recordId # records) =
     (case getCollection (loki ex) table of
        None \<Rightarrow> Inl (TypeError, ex)
      | Some collection \<Rightarrow>
          (case coll_by_id collection recordId of
             None \<Rightarrow> destroyDeletedRecords ex table records
           | Some record \<Rightarrow>
               (case coll_remove collection (Some record) of
                  Inl e \<Rightarrow> Inl (e, ex)
                | Inr c' \<Rightarrow> destroyDeletedRecords (with_collection ex table c') table records)))"

subsection \<open>Local storage\<close>

definition SCHEMA_VERSION_KEY :: string where
  "SCHEMA_VERSION_KEY = ''_loki_schema_version''"

text \<open>
  \<^verbatim>\<open>_findLocal\<close> is \<^verbatim>\<open>localStorage && localStorage.by('key', key)\<close>: \<^verbatim>\<open>null\<close>
  without a collection, and a TypeError when the collection named \<^verbatim>\<open>local_storage\<close>
  is one that \<^verbatim>\<open>_addCollection\<close> made, which has no unique field \<^verbatim>\<open>key\<close>.
\<close>

definition findLocal :: "LokiExecutor \<Rightarrow> string \<Rightarrow> document option result" where
  "findLocal ex key =
     (case lookupCollection (loki ex) ''local_storage'' of
        NoCollection \<Rightarrow> Inr None
      | KeyValueCollection localStorage \<Rightarrow> Inr (local_by_key localStorage key)
      | TableCollection _ \<Rightarrow> Inl (TypeError, ex))"

definition getLocal :: "LokiExecutor \<Rightarrow> string \<Rightarrow> val option result" where
  "getLocal ex key =
     (case findLocal ex key of
        Inl e \<Rightarrow> Inl e
      | Inr None \<Rightarrow> Inr None
      | Inr (Some record) \<Rightarrow> Inr (record ''value''))"

definition setLocal :: "LokiExecutor \<Rightarrow> string \<Rightarrow> string \<Rightarrow> LokiExecutor result" where
  "setLocal ex key v =
     (case findLocal ex key of
        Inl e \<Rightarrow> Inl e
      | Inr (Some record) \<Rightarrow>
          (case lookupCollection (loki ex) ''local_storage'' of
             KeyValueCollection localStorage \<Rightarrow>
               Inr (with_local ex (local_assign localStorage key (\<lambda>d. d(''value'' \<mapsto> Str v))))
           | _ \<Rightarrow> Inl (TypeError, ex))
      | Inr None \<Rightarrow>
          (case lookupCollection (loki ex) ''local_storage'' of
             KeyValueCollection localStorage \<Rightarrow>
               (case local_insert localStorage [''key'' \<mapsto> Str key, ''value'' \<mapsto> Str v] of
                  Inl e \<Rightarrow> Inl (e, ex)
                | Inr l' \<Rightarrow> Inr (with_local ex l'))
           | _ \<Rightarrow> Inl (TypeError, ex)))"

definition removeLocal :: "LokiExecutor \<Rightarrow> string \<Rightarrow> LokiExecutor result" where
  "removeLocal ex key =
     (case findLocal ex key of
        Inl e \<Rightarrow> Inl e
      | Inr (Some record) \<Rightarrow>
          (case lookupCollection (loki ex) ''local_storage'' of
             KeyValueCollection localStorage \<Rightarrow> Inr (with_local ex (local_remove localStorage key))
           | _ \<Rightarrow> Inl (TypeError, ex))
      | Inr None \<Rightarrow> Inr ex)"

subsection \<open>Numbers and strings\<close>

text \<open>
  A JavaScript number is a double. The numbers the executor meets are integers, the two
  infinities and \<^verbatim>\<open>NaN\<close>; a finite one is given by its integer value. \<open>round53\<close> is
  the double nearest to a natural number, ties to the even significand; from
  \<open>2 ^ 1024\<close> on the result is infinite.
\<close>

datatype jsnumber = NaN | Finite int | PosInfinity | NegInfinity

definition MAX_SAFE_INTEGER :: int where
  "MAX_SAFE_INTEGER = 2 ^ 53 - 1"

fun bitlen :: "nat \<Rightarrow> nat" where
  "bitlen n = (if n = 0 then 0 else Suc (bitlen (n div 2)))"

definition round53 :: "nat \<Rightarrow> nat" where
  "round53 n =
     (if n < 2 ^ 53 then n
      else let e = bitlen n - 53;
               q = n div 2 ^ e;
               r = n mod 2 ^ e;
               h = 2 ^ (e - 1)
           in (if h < r \<or> (r = h \<and> odd q) then q + 1 else q) * 2 ^ e)"

definition toDouble :: "nat \<Rightarrow> nat option" where
  "toDouble n = (let m = round53 n in if m < 2 ^ 1024 then Some m else None)"

definition digit_char :: "nat \<Rightarrow> char" where
  "digit_char n = char_of (48 + n)"

fun string_of_nat :: "nat \<Rightarrow> string" where
  "string_of_nat n =
     (if n < 10 then [digit_char n] else string_of_nat (n div 10) @ [digit_char (n mod 10)])"

text \<open>
  A template literal prints a number as \<^verbatim>\<open>Number::toString\<close> does: with the fewest
  digits \<open>s\<close> that still read back as the number, \<open>s\<close> times a power of ten being the
  nearest to it among those, and \<open>n\<close> the number of digits before the decimal point.
  \<open>shortest x d k\<close> looks for them from \<open>k\<close> digits on, for a number \<open>x\<close> of \<open>d\<close>
  decimal digits. Up to 21 digits before the point the number is printed in full,
  beyond that in exponent form. What is printed for an integer that is not a double,
  which no number of the program is, is all its digits.
\<close>

function shortest :: "nat \<Rightarrow> nat \<Rightarrow> nat \<Rightarrow> nat \<times> nat" where
  "shortest x d k =
     (if d \<le> k then (x, d)
      else let p = 10 ^ (d - k);
               lo = x div p;
               hi = lo + 1;
               fits_lo = (round53 (lo * p) = x);
               fits_hi = (round53 (hi * p) = x);
               up = (if hi = 10 ^ k then (10 ^ (k - 1), d + 1) else (hi, d))
           in if fits_lo \<and> fits_hi
              then (if x - lo * p < hi * p - x \<or> (x - lo * p = hi * p - x \<and> even lo)
                    then (lo, d) else up)
              else if fits_lo then (lo, d)
              else if fits_hi then up
              else shortest x d (k + 1))"
  by pat_completeness auto
termination
  by (relation "measure (\<lambda>(x, d, k). d - k)") auto

definition nat_toString :: "nat \<Rightarrow> string" where
  "nat_toString x =
     (if x = 0 then ''0''
      else let d = length (string_of_nat x);
               (s, n) = shortest x d 1;
               digits = string_of_nat s;
               k = length digits
           in if n \<le> 21 then digits @ replicate (n - k) (CHR ''0'')
              else if k = 1 then digits @ ''e+'' @ string_of_nat (n - 1)
              else hd digits # CHR ''.'' # tl digits @ ''e+'' @ string_of_nat (n - 1))"

definition numberToString :: "int \<Rightarrow> string" where
  "numberToString v =
     (if v < 0 then CHR ''-'' # nat_toString (nat (- v)) else nat_toString (nat v))"

text \<open>
  \<^verbatim>\<open>parseInt(string, 10)\<close>: leading white space is skipped, then an optional sign, then
  the longest run of decimal digits is read and whatever follows is ignored; without a
  digit the result is \<^verbatim>\<open>NaN\<close>, and otherwise the double nearest to the integer the
  digits spell. The strings are strings of ASCII characters.
\<close>

definition isWhiteSpace :: "char \<Rightarrow> bool" where
  "isWhiteSpace ch \<longleftrightarrow> ch \<in> set [CHR 0x09, CHR 0x0A, CHR 0x0B, CHR 0x0C, CHR 0x0D, CHR '' '']"

definition isDigit :: "char \<Rightarrow> bool" where
  "isDigit ch \<longleftrightarrow> (48::nat) \<le> of_char ch \<and> of_char ch \<le> (57::nat)"

definition digitValue :: "char \<Rightarrow> nat" where
  "digitValue ch = of_char ch - 48"

definition parseInt :: "string \<Rightarrow> jsnumber" where
  "parseInt inputString =
     (let S = dropWhile isWhiteSpace inputString;
          negative = (S \<noteq> [] \<and> hd S = CHR ''-'');
          S' = (if S \<noteq> [] \<and> (hd S = CHR ''-'' \<or> hd S = CHR ''+'') then tl S else S);
          Z = takeWhile isDigit S'
      in if Z = [] then NaN
         else case toDouble (foldl (\<lambda>acc ch. 10 * acc + digitValue ch) 0 Z) of
                None \<Rightarrow> if negative then NegInfinity else PosInfinity
              | Some n \<Rightarrow> Finite (if negative then - int n else int n))"


text \<open>
  What \<^verbatim>\<open>||\<close> takes for false among the values of a property, and the string
  \<^verbatim>\<open>parseInt\<close> makes of its argument.
\<close>

definition falsy :: "val \<Rightarrow> bool" where
  "falsy v = (case v of Null \<Rightarrow> True | Bool b \<Rightarrow> \<not> b | Num n \<Rightarrow> n = 0 | Str s \<Rightarrow> s = [])"

definition toString_val :: "val \<Rightarrow> string" where
  "toString_val v =
     (case v of
        Null \<Rightarrow> ''null''
      | Bool b \<Rightarrow> if b then ''true'' else ''false''
      | Num n \<Rightarrow> numberToString n
      | Str s \<Rightarrow> s)"

subsection \<open>The schema version\<close>

text \<open>The getter and the setter of \<^verbatim>\<open>_databaseVersion\<close>.\<close>

definition get_databaseVersion :: "LokiExecutor \<Rightarrow> jsnumber result" where
  "get_databaseVersion ex =
     (case getLocal ex SCHEMA_VERSION_KEY of
        Inl e \<Rightarrow> Inl e
      | Inr v \<Rightarrow>
          (let databaseVersionRaw =
                 (case v of None \<Rightarrow> Str [] | Some x \<Rightarrow> if falsy x then Str [] else x)
           in Inr (case parseInt (toString_val databaseVersionRaw) of
                     NaN \<Rightarrow> Finite 0
                   | Finite n \<Rightarrow> if n = 0 then Finite 0 else Finite n
                   | PosInfinity \<Rightarrow> PosInfinity
                   | NegInfinity \<Rightarrow> NegInfinity)))"

definition set_databaseVersion :: "LokiExecutor \<Rightarrow> SchemaVersion \<Rightarrow> LokiExecutor result" where
  "set_databaseVersion ex v = setLocal ex SCHEMA_VERSION_KEY (numberToString v)"

subsection \<open>Schema set-up and migrations\<close>

text \<open>
  \<^verbatim>\<open>_addCollection\<close>, which both the schema set-up and the migration step
  \<^verbatim>\<open>create_table\<close> call. The warnings about full-text search are log lines and are
  left out, here and below.
\<close>

definition executor_addCollection :: "LokiExecutor \<Rightarrow> TableName \<Rightarrow> ColumnSchema list \<Rightarrow> LokiExecutor" where
  "executor_addCollection ex nm cols =
     (let indexedColumns =
            foldl (\<lambda>indexes column. if isIndexed column then indexes @ [name column] else indexes)
              [] cols
      in ex\<lparr>loki := addCollection (loki ex) nm (''_status'' # indexedColumns)\<rparr>)"

definition setUpSchema :: "LokiExecutor \<Rightarrow> LokiExecutor result" where
  "setUpSchema ex =
     (let ex1 = foldl (\<lambda>e tableSchema.
                    executor_addCollection e (table_name tableSchema) (columns tableSchema))
                  ex (map snd (tables (schema ex)));
          ex2 = ex1\<lparr>loki := addLocalStorage (loki ex1)\<rparr>
      in set_databaseVersion ex2 (version (schema ex2)))"

text \<open>
  Modelled from the spec: \<^verbatim>\<open>deleteDatabase\<close>, \<^verbatim>\<open>newLoki\<close> and \<^verbatim>\<open>loadDatabase\<close>
  belong to the module lokiExtensions, which is not part of the sources. Opening makes
  the loaded database the executor's; a reset destroys the database and opens a new,
  empty one. Their input and output is taken to succeed.
\<close>

definition openDatabase :: "LokiExecutor \<Rightarrow> Loki \<Rightarrow> LokiExecutor" where
  "openDatabase ex loaded = ex\<lparr>loki := loaded\<rparr>"

definition unsafeResetDatabase :: "LokiExecutor \<Rightarrow> LokiExecutor result" where
  "unsafeResetDatabase ex =
     setUpSchema (openDatabase (ex\<lparr>cachedRecords := Map.empty\<rparr>) emptyLoki)"

text \<open>
  Modelled from the spec: \<^verbatim>\<open>setRawSanitized\<close> belongs to the module RawRecord, which
  is not part of the sources. It sets the one property \<open>columnName\<close> of the record to the
  sanitized value and leaves every other property; the sanitizer of a single value is
  the parameter \<open>sv\<close>. A column is never named \<^verbatim>\<open>id\<close>: the validation of a schema
  rejects the name. On a document of the local storage it is the same assignment.
\<close>

type_synonym value_sanitizer = "val \<Rightarrow> ColumnSchema \<Rightarrow> val"

definition setRawSanitized ::
  "value_sanitizer \<Rightarrow> RawRecord \<Rightarrow> string \<Rightarrow> val \<Rightarrow> ColumnSchema \<Rightarrow> RawRecord" where
  "setRawSanitized sv rawRecord columnName v columnSchema =
     rawRecord\<lparr>props := (props rawRecord)(columnName \<mapsto> sv v columnSchema)\<rparr>"

definition document_setRawSanitized ::
  "value_sanitizer \<Rightarrow> document \<Rightarrow> string \<Rightarrow> val \<Rightarrow> ColumnSchema \<Rightarrow> document" where
  "document_setRawSanitized sv d columnName v columnSchema = d(columnName \<mapsto> sv v columnSchema)"

definition executeCreateTableMigration ::
  "LokiExecutor \<Rightarrow> TableName \<Rightarrow> ColumnSchema list \<Rightarrow> LokiExecutor" where
  "executeCreateTableMigration ex nm cols = executor_addCollection ex nm cols"

text \<open>
  \<^verbatim>\<open>findAndUpdate\<close> and \<^verbatim>\<open>ensureIndex\<close> are methods of every collection: a step
  that names \<^verbatim>\<open>local_storage\<close> rewrites the documents of the local storage, the
  record of the schema version among them.
\<close>

definition executeAddColumnsMigration ::
  "value_sanitizer \<Rightarrow> LokiExecutor \<Rightarrow> TableName \<Rightarrow> ColumnSchema list \<Rightarrow> LokiExecutor result" where
  "executeAddColumnsMigration sv ex table cols =
     (case getCollection (loki ex) table of
        None \<Rightarrow>
          (case lookupCollection (loki ex) table of
             KeyValueCollection l \<Rightarrow>
               (let updated = local_findAndUpdate l
                      (\<lambda>d. foldl (\<lambda>r column. document_setRawSanitized sv r (name column) Null column)
                              d cols);
                    indexed = foldl (\<lambda>c column.
                                if isIndexed column then local_ensureIndex c (name column) else c)
                      updated cols
                in Inr (with_local ex indexed))
           | _ \<Rightarrow> Inl (TypeError, ex))
      | Some collection \<Rightarrow>
          (let updated = coll_findAndUpdate collection
                 (\<lambda>rcd. foldl (\<lambda>r column. setRawSanitized sv r (name column) Null column) rcd cols);
               indexed = foldl (\<lambda>c column. if isIndexed column then coll_ensureIndex c (name column) else c)
                 updated cols
           in Inr (with_collection ex table indexed)))"

definition migrate_step :: "value_sanitizer \<Rightarrow> LokiExecutor \<Rightarrow> MigrationStep \<Rightarrow> LokiExecutor result" where
  "migrate_step sv ex step =
     (if step_type step = ''create_table''
      then Inr (executeCreateTableMigration ex (step_table step) (step_columns step))
      else if step_type step = ''add_columns''
      then executeAddColumnsMigration sv ex (step_table step) (step_columns step)
      else Inl (UnsupportedMigrationStep (step_type step), ex))"

fun migrate_steps :: "value_sanitizer \<Rightarrow> LokiExecutor \<Rightarrow> MigrationStep list \<Rightarrow> LokiExecutor result" where
  "migrate_steps sv ex [] = Inr ex"
| "migrate_steps sv ex (step # steps) =
     (case migrate_step sv ex step of
        Inl e \<Rightarrow> Inl e
      | Inr ex' \<Rightarrow> migrate_steps sv ex' steps)"

definition migrate :: "value_sanitizer \<Rightarrow> LokiExecutor \<Rightarrow> MigrationStep list \<Rightarrow> LokiExecutor result" where
  "migrate sv ex steps =
     (case migrate_steps sv ex steps of
        Inl e \<Rightarrow> Inl e
      | Inr ex' \<Rightarrow> set_databaseVersion ex' (version (schema ex')))"

definition getMigrationSteps :: "LokiExecutor \<Rightarrow> SchemaVersion \<Rightarrow> MigrationStep list option" where
  "getMigrationSteps ex fromVersion =
     (case migrations ex of
        None \<Rightarrow> None
      | Some stepsForMigration \<Rightarrow> stepsForMigration fromVersion (version (schema ex)))"

text \<open>
  The version of the schema is an integer; the version of the database is whatever
  number the getter read. An infinite one is neither the version of the schema nor
  \<open>0\<close>, and not below the version of the schema, so that it leads to the last branch.
\<close>

definition migrateIfNeeded :: "value_sanitizer \<Rightarrow> LokiExecutor \<Rightarrow> LokiExecutor result" where
  "migrateIfNeeded sv ex =
     (case get_databaseVersion ex of
        Inl e \<Rightarrow> Inl e
      | Inr dbVersion \<Rightarrow>
          (let schemaVersion = version (schema ex)
           in if dbVersion = Finite schemaVersion then Inr ex
              else if dbVersion = Finite 0 then unsafeResetDatabase ex
              else case dbVersion of
                     Finite d \<Rightarrow>
                       if d > 0 \<and> d < schemaVersion then
                         (case getMigrationSteps ex d of
                            Some migrationSteps \<Rightarrow> migrate sv ex migrationSteps
                          | None \<Rightarrow> unsafeResetDatabase ex)
                       else unsafeResetDatabase ex
                   | _ \<Rightarrow> unsafeResetDatabase ex))"

definition setUp :: "value_sanitizer \<Rightarrow> LokiExecutor \<Rightarrow> Loki \<Rightarrow> LokiExecutor result" where
  "setUp sv ex loaded = migrateIfNeeded sv (openDatabase ex loaded)"

subsection \<open>Sample data\<close>

definition sample_raw :: RawRecord where
  "sample_raw = \<lparr>raw_id = ''a'', props = [''_status'' \<mapsto> Str ''created'', ''title'' \<mapsto> Str ''tea'']\<rparr>"

definition sample_saved :: RawRecord where
  "sample_saved =
     \<lparr>raw_id = ''a'',
      props = [''_status'' \<mapsto> Str ''created'', ''title'' \<mapsto> Str ''tea'', ''$loki'' \<mapsto> Num 1]\<rparr>"

definition sample_update :: RawRecord where
  "sample_update = \<lparr>raw_id = ''a'', props = [''_status'' \<mapsto> Str ''updated'', ''title'' \<mapsto> Str ''coffee'']\<rparr>"

definition sample_collection :: Collection where
  "sample_collection = \<lparr>data = [sample_saved], maxId = 1, binaryIndices = [''_status'']\<rparr>"

definition sample_empty_collection :: Collection where
  "sample_empty_collection = \<lparr>data = [], maxId = 0, binaryIndices = [''_status'']\<rparr>"

definition sample_table :: TableSchema where
  "sample_table =
     \<lparr>table_name = ''tasks'',
      columns = [\<lparr>name = ''title'', isIndexed = False, isSearchable = False\<rparr>]\<rparr>"

definition sample_schema :: AppSchema where
  "sample_schema = \<lparr>version = 2, tables = [(''tasks'', sample_table)]\<rparr>"

definition sample_local_empty :: LocalCollection where
  "sample_local_empty = \<lparr>local_data = [], local_maxId = 0, local_indices = []\<rparr>"

text \<open>The local storage that holds nothing but the record of the schema version.\<close>

definition sample_marker :: "string \<Rightarrow> LocalCollection" where
  "sample_marker v =
     \<lparr>local_data = [[''key'' \<mapsto> Str ''_loki_schema_version'', ''value'' \<mapsto> Str v,
                     ''$loki'' \<mapsto> Num 1]],
      local_maxId = 1, local_indices = []\<rparr>"

definition sample_executor :: LokiExecutor where
  "sample_executor =
     \<lparr>schema = sample_schema, migrations = None,
      loki = \<lparr>collections = [''tasks'' \<mapsto> sample_collection],
               local_storage = Some sample_local_empty\<rparr>,
      cachedRecords = Map.empty\<rparr>"

definition sample_empty_executor :: LokiExecutor where
  "sample_empty_executor =
     \<lparr>schema = sample_schema, migrations = None,
      loki = \<lparr>collections = [''tasks'' \<mapsto> sample_empty_collection],
               local_storage = Some sample_local_empty\<rparr>,
      cachedRecords = Map.empty\<rparr>"

definition sample_sanitizer :: sanitizer where
  "sample_sanitizer raw tableSchema = raw\<lparr>props := (props raw)(''$loki'' := None)\<rparr>"

definition sample_cached_executor :: LokiExecutor where
  "sample_cached_executor = sample_executor\<lparr>cachedRecords := [''tasks'' \<mapsto> {''a''}]\<rparr>"

definition sample_stale_executor :: LokiExecutor where
  "sample_stale_executor =
     \<lparr>schema = sample_schema, migrations = None,
      loki = \<lparr>collections = [''tasks'' \<mapsto> \<lparr>data = [], maxId = 1, binaryIndices = [''_status'']\<rparr>],
               local_storage = Some sample_local_empty\<rparr>,
      cachedRecords = [''tasks'' \<mapsto> {''a''}]\<rparr>"

definition sample_deleted_executor :: LokiExecutor where
  "sample_deleted_executor =
     \<lparr>schema = sample_schema, migrations = None,
      loki = \<lparr>collections =
                 [''tasks'' \<mapsto> \<lparr>data = [set_status sample_saved], maxId = 1,
                                binaryIndices = [''_status'']\<rparr>],
               local_storage = Some sample_local_empty\<rparr>,
      cachedRecords = [''tasks'' \<mapsto> {}]\<rparr>"

definition sample_garbage_executor :: LokiExecutor where
  "sample_garbage_executor =
     sample_executor\<lparr>loki := (loki sample_executor)\<lparr>local_storage := Some (sample_marker ''abc'')\<rparr>\<rparr>"

text \<open>
  A database whose collection \<^verbatim>\<open>local_storage\<close> was made by \<^verbatim>\<open>_addCollection\<close>, as
  it is after the set-up of a schema that has a table of that name.
\<close>

definition sample_clash_schema :: AppSchema where
  "sample_clash_schema =
     \<lparr>version = 2, tables = [(''local_storage'', \<lparr>table_name = ''local_storage'', columns = []\<rparr>)]\<rparr>"

definition sample_clash_executor :: LokiExecutor where
  "sample_clash_executor =
     \<lparr>schema = sample_clash_schema, migrations = None, loki = emptyLoki,
      cachedRecords = Map.empty\<rparr>"

definition sample_shadowed_executor :: LokiExecutor where
  "sample_shadowed_executor =
     \<lparr>schema = sample_clash_schema, migrations = None,
      loki = \<lparr>collections = [''local_storage'' \<mapsto> sample_empty_collection],
               local_storage = None\<rparr>,
      cachedRecords = Map.empty\<rparr>"

definition sample_value_sanitizer :: value_sanitizer where
  "sample_value_sanitizer v columnSchema = (if v = Null then Str [] else v)"

definition sample_columns :: "ColumnSchema list" where
  "sample_columns =
     [\<lparr>name = ''priority'', isIndexed = True, isSearchable = False\<rparr>,
      \<lparr>name = ''note'', isIndexed = False, isSearchable = True\<rparr>]"

definition sample_loaded_current :: Loki where
  "sample_loaded_current =
     \<lparr>collections = [''tasks'' \<mapsto> sample_collection],
      local_storage = Some (sample_marker ''2'')\<rparr>"

definition sample_loaded_old :: Loki where
  "sample_loaded_old =
     \<lparr>collections = [''tasks'' \<mapsto> sample_collection],
      local_storage = Some (sample_marker ''1'')\<rparr>"

definition sample_good_steps :: "MigrationStep list" where
  "sample_good_steps =
     [MigrationStep ''create_table'' ''comments'' sample_columns,
      MigrationStep ''add_columns'' ''tasks'' sample_columns]"

definition sample_bad_steps :: "MigrationStep list" where
  "sample_bad_steps =
     [MigrationStep ''create_table'' ''comments'' sample_columns,
      MigrationStep ''rename_column'' ''tasks'' [],
      MigrationStep ''add_columns'' ''tasks'' sample_columns]"

text \<open>Steps of which the first adds a column \<^verbatim>\<open>value\<close> to the local storage.\<close>

definition sample_marker_steps :: "MigrationStep list" where
  "sample_marker_steps =
     [MigrationStep ''add_columns'' ''local_storage''
        [\<lparr>name = ''value'', isIndexed = False, isSearchable = False\<rparr>],
      MigrationStep ''rename_column'' ''tasks'' []]"

definition sample_old_executor :: LokiExecutor where
  "sample_old_executor = sample_executor\<lparr>loki := sample_loaded_old\<rparr>"

definition sample_wiped_executor :: LokiExecutor where
  "sample_wiped_executor =
     sample_executor\<lparr>loki :=
       \<lparr>collections = [''tasks'' \<mapsto> sample_collection],
        local_storage = Some (sample_marker [])\<rparr>\<rparr>"

definition sample_migrating_executor :: LokiExecutor where
  "sample_migrating_executor =
     sample_executor\<lparr>migrations :=
       Some (\<lambda>fromVersion toVersion.
               if fromVersion = 1 \<and> toVersion = 2 then Some sample_good_steps else None)\<rparr>"

text \<open>A schema of version \<open>10 ^ 21\<close>, and the executor after its set-up on a new database.\<close>

definition sample_huge_executor :: LokiExecutor where
  "sample_huge_executor =
     \<lparr>schema = \<lparr>version = 1000000000000000000000, tables = [(''tasks'', sample_table)]\<rparr>,
      migrations = None, loki = emptyLoki, cachedRecords = Map.empty\<rparr>"

definition sample_huge_result :: LokiExecutor where
  "sample_huge_result =
     \<lparr>schema = \<lparr>version = 1000000000000000000000, tables = [(''tasks'', sample_table)]\<rparr>,
      migrations = None,
      loki = \<lparr>collections = [''tasks'' \<mapsto> sample_empty_collection],
               local_storage = Some (sample_marker ''1e+21'')\<rparr>,
      cachedRecords = Map.empty\<rparr>"

section \<open>Properties\<close>

subsection \<open>Cache and store bookkeeping\<close>

lemma loki_markAsCached: "loki (markAsCached ex t x) = loki ex"
  by (simp add: markAsCached_def split: option.splits)

lemma loki_removeFromCache: "loki (removeFromCache ex t x) = loki ex"
  by (simp add: removeFromCache_def split: option.splits)

lemma schema_markAsCached: "schema (markAsCached ex t x) = schema ex"
  by (simp add: markAsCached_def split: option.splits)

lemma schema_removeFromCache: "schema (removeFromCache ex t x) = schema ex"
  by (simp add: removeFromCache_def split: option.splits)

lemma schema_with_collection: "schema (with_collection ex t c) = schema ex"
  by (simp add: with_collection_def)

lemma isCached_markAsCached:
  "isCached (markAsCached ex t x) t' y \<longleftrightarrow> (t' = t \<and> y = x) \<or> isCached ex t' y"
  by (auto simp: isCached_def markAsCached_def split: option.splits)

lemma isCached_removeFromCache:
  "isCached (removeFromCache ex t x) t' y \<longleftrightarrow> isCached ex t' y \<and> \<not> (t' = t \<and> y = x)"
  by (auto simp: isCached_def removeFromCache_def split: option.splits)


lemma cachedRecords_with_collection: "cachedRecords (with_collection ex t c) = cachedRecords ex"
  by (simp add: with_collection_def)

lemma getCollection_with_collection:
  "getCollection (loki (with_collection ex t c)) t' =
     (if t' = t then Some c else getCollection (loki ex) t')"
  by (simp add: getCollection_def with_collection_def setCollection_def)

lemma isCached_loki_update: "isCached (ex\<lparr>loki := db\<rparr>) t x = isCached ex t x"
  by (simp add: isCached_def)

lemmas sample_defs = sample_raw_def sample_saved_def sample_collection_def
  sample_empty_collection_def sample_schema_def sample_executor_def
  sample_empty_executor_def sample_sanitizer_def sample_cached_executor_def
  sample_update_def sample_stale_executor_def sample_garbage_executor_def
  sample_value_sanitizer_def sample_columns_def sample_loaded_current_def
  sample_loaded_old_def sample_good_steps_def sample_bad_steps_def sample_old_executor_def
  sample_migrating_executor_def sample_deleted_executor_def sample_table_def
  sample_local_empty_def sample_marker_def sample_clash_schema_def
  sample_clash_executor_def sample_shadowed_executor_def sample_marker_steps_def
  sample_wiped_executor_def sample_huge_executor_def sample_huge_result_def

lemma sample_executor_facts:
  "\<not> isCached sample_executor ''tasks'' ''a''"
  "getCollection (loki sample_executor) ''tasks'' = Some sample_collection"
  "coll_by_id sample_collection ''a'' = Some sample_saved"
  by (simp_all add: isCached_def getCollection_def coll_by_id_def sample_defs)

lemma sample_empty_executor_facts:
  "getCollection (loki sample_empty_executor) ''tasks'' = Some sample_empty_collection"
  "coll_by_id sample_empty_collection ''a'' = None"
  "\<not> isCached sample_empty_executor ''tasks'' ''a''"
  by (simp_all add: isCached_def getCollection_def coll_by_id_def sample_defs)

lemma sample_schema_facts:
  "map_of (tables (schema sample_executor)) ''tasks'' = Some sample_table"
  "map_of (tables (schema sample_cached_executor)) ''tasks'' = Some sample_table"
  "map_of (tables (schema sample_empty_executor)) ''tasks'' = Some sample_table"
  by (simp_all add: sample_defs)

subsection \<open>Caching on find\<close>

text \<open>
  Claim C4. When \<open>x\<close> is not cached and the collection of table \<open>t\<close>, a table of the
  schema, holds a record with id \<open>x\<close>, the first \<open>find\<close> returns the full sanitized
  record, marks \<open>x\<close> as cached and leaves the store as it was; the second \<open>find\<close>
  returns the bare identity \<open>x\<close>, and it does so whatever the store holds, so it does
  not read the store.
\<close>

theorem find_caches_then_compacts:
  assumes "\<not> isCached ex t x"
    and "getCollection (loki ex) t = Some c"
    and "coll_by_id c x = Some raw"
    and "map_of (tables (schema ex)) t = Some tableSchema"
  shows "\<exists>ex1. find_record san ex t x = Inr (Full (san raw tableSchema), ex1)
           \<and> isCached ex1 t x \<and> loki ex1 = loki ex
           \<and> find_record san ex1 t x = Inr (Bare x, ex1)
           \<and> (\<forall>db. find_record san (ex1\<lparr>loki := db\<rparr>) t x = Inr (Bare x, ex1\<lparr>loki := db\<rparr>))"
  using assms
  by (simp add: find_record_def isCached_markAsCached loki_markAsCached isCached_loki_update)

theorem find_caches_then_compacts_witness:
  "\<not> isCached sample_executor ''tasks'' ''a''
   \<and> getCollection (loki sample_executor) ''tasks'' = Some sample_collection
   \<and> coll_by_id sample_collection ''a'' = Some sample_saved
   \<and> map_of (tables (schema sample_executor)) ''tasks'' = Some sample_table
   \<and> (\<exists>ex1. find_record sample_sanitizer sample_executor ''tasks'' ''a'' =
          Inr (Full (sample_sanitizer sample_saved sample_table), ex1)
        \<and> isCached ex1 ''tasks'' ''a'' \<and> loki ex1 = loki sample_executor
        \<and> find_record sample_sanitizer ex1 ''tasks'' ''a'' = Inr (Bare ''a'', ex1)
        \<and> (\<forall>db. find_record sample_sanitizer (ex1\<lparr>loki := db\<rparr>) ''tasks'' ''a'' =
               Inr (Bare ''a'', ex1\<lparr>loki := db\<rparr>)))"
  using find_caches_then_compacts [OF sample_executor_facts sample_schema_facts(1),
      of sample_sanitizer]
    sample_executor_facts sample_schema_facts(1)
  by simp

subsection \<open>Absent records\<close>

lemma find_filter_None: "find P xs = None \<Longrightarrow> find P (filter Q xs) = None"
  by (auto simp: find_None_iff)

lemma coll_by_id_remove_None:
  "coll_remove c r = Inr c' \<Longrightarrow> coll_by_id c y = None \<Longrightarrow> coll_by_id c' y = None"
  by (auto simp: coll_remove_def coll_by_id_def find_filter_None split: option.splits val.splits)

lemma destroyDeletedRecords_skip:
  "getCollection (loki ex) t = Some c \<Longrightarrow>
   \<forall>i\<in>set ids. \<not> keep i \<longrightarrow> coll_by_id c i = None \<Longrightarrow>
   destroyDeletedRecords ex t ids = destroyDeletedRecords ex t (filter keep ids)"
proof (induction ids arbitrary: ex c)
  case Nil
  then show ?case by simp
next
  case (Cons i ids)
  show ?case
  proof (cases "coll_by_id c i")
    case None
    then show ?thesis using Cons by simp
  next
    case (Some rcd)
    then have k: "keep i" using Cons.prems by auto
    show ?thesis
    proof (cases "coll_remove c (Some rcd)")
      case (Inl e)
      then show ?thesis using Some k Cons.prems by simp
    next
      case (Inr c')
      have "destroyDeletedRecords (with_collection ex t c') t ids =
            destroyDeletedRecords (with_collection ex t c') t (filter keep ids)"
        using Cons.prems Inr
        by (intro Cons.IH [of _ c'])
          (auto simp: getCollection_with_collection coll_by_id_remove_None)
      then show ?thesis using Some k Cons.prems Inr by simp
    qed
  qed
qed

text \<open>
  Claim C7. In a table \<open>t\<close> of the store that holds no record with id \<open>x\<close>, and with
  \<open>x\<close> not cached: \<open>find\<close> returns absent and not an error, \<open>markAsDeleted\<close> returns
  with store and cache unchanged, and \<open>destroyDeletedRecords\<close> skips \<open>x\<close>, as it skips
  every id of its list that has no record: the run is the run on the ids that have one,
  and it changes nothing when none has.
\<close>

theorem absent_record_is_no_error:
  assumes "getCollection (loki ex) t = Some c"
    and "coll_by_id c x = None"
    and "\<not> isCached ex t x"
  shows "find_record san ex t x = Inr (Absent, ex)
       \<and> markAsDeleted ex t x = Inr ex
       \<and> destroyDeletedRecords ex t (x # ids) = destroyDeletedRecords ex t ids
       \<and> destroyDeletedRecords ex t ids =
           destroyDeletedRecords ex t (filter (\<lambda>i. coll_by_id c i \<noteq> None) ids)
       \<and> ((\<forall>i\<in>set ids. coll_by_id c i = None) \<longrightarrow> destroyDeletedRecords ex t ids = Inr ex)"
proof -
  have skip: "destroyDeletedRecords ex t ids =
           destroyDeletedRecords ex t (filter (\<lambda>i. coll_by_id c i \<noteq> None) ids)"
    using assms(1) by (rule destroyDeletedRecords_skip) simp
  have "(\<forall>i\<in>set ids. coll_by_id c i = None) \<longrightarrow> filter (\<lambda>i. coll_by_id c i \<noteq> None) ids = []"
    by (simp add: filter_empty_conv)
  with skip have "(\<forall>i\<in>set ids. coll_by_id c i = None) \<longrightarrow> destroyDeletedRecords ex t ids = Inr ex"
    by auto
  with skip assms show ?thesis
    by (simp add: find_record_def markAsDeleted_def)
qed

theorem absent_record_is_no_error_witness:
  "getCollection (loki sample_empty_executor) ''tasks'' = Some sample_empty_collection
   \<and> coll_by_id sample_empty_collection ''a'' = None
   \<and> \<not> isCached sample_empty_executor ''tasks'' ''a''
   \<and> coll_by_id sample_empty_collection ''b'' = None
   \<and> find_record sample_sanitizer sample_empty_executor ''tasks'' ''a'' =
       Inr (Absent, sample_empty_executor)
   \<and> markAsDeleted sample_empty_executor ''tasks'' ''a'' = Inr sample_empty_executor
   \<and> destroyDeletedRecords sample_empty_executor ''tasks'' [''b'', ''a''] =
       Inr sample_empty_executor"
proof -
  have none: "\<forall>i\<in>set [''b'', ''a'']. coll_by_id sample_empty_collection i = None"
    by (simp add: coll_by_id_def sample_defs)
  show ?thesis
    using absent_record_is_no_error [OF sample_empty_executor_facts,
        of sample_sanitizer "[''b'', ''a'']"] sample_empty_executor_facts none
    by simp
qed

subsection \<open>The store keeps its consistency\<close>

lemma find_distinct_key:
  "distinct (map f xs) \<Longrightarrow> d \<in> set xs \<Longrightarrow> find (\<lambda>e. f e = f d) xs = Some d"
  by (induction xs) (auto simp: rev_image_eqI)

lemma distinct_key_eq:
  "distinct (map f xs) \<Longrightarrow> d \<in> set xs \<Longrightarrow> e \<in> set xs \<Longrightarrow> f e = f d \<Longrightarrow> e = d"
  by (meson distinct_map inj_on_def)

lemma coll_by_id_SomeD:
  "coll_by_id c x = Some d \<Longrightarrow> d \<in> set (data c) \<and> raw_id d = x"
  by (auto simp: coll_by_id_def find_Some_iff)


lemma wf_loki:
  "wf_collection c \<Longrightarrow> d \<in> set (data c) \<Longrightarrow> \<exists>l. loki_of d = Some (Num l) \<and> l \<le> maxId c"
proof -
  assume "wf_collection c" and "d \<in> set (data c)"
  then have "has_loki_upto (maxId c) d"
    by (simp add: wf_collection_def list_all_iff)
  then show ?thesis
    by (cases "loki_of d") (auto simp: has_loki_upto_def split: val.splits)
qed

lemma wf_coll_get:
  "wf_collection c \<Longrightarrow> d \<in> set (data c) \<Longrightarrow> coll_get c (loki_of d) = Some d"
  by (simp add: wf_collection_def coll_get_def find_distinct_key)

lemma wf_same_loki:
  "wf_collection c \<Longrightarrow> d \<in> set (data c) \<Longrightarrow> e \<in> set (data c) \<Longrightarrow> loki_of e = loki_of d \<Longrightarrow> e = d"
  unfolding wf_collection_def by (blast intro: distinct_key_eq)

lemma wf_same_id:
  "wf_collection c \<Longrightarrow> d \<in> set (data c) \<Longrightarrow> e \<in> set (data c) \<Longrightarrow> raw_id e = raw_id d \<Longrightarrow> e = d"
  unfolding wf_collection_def by (blast intro: distinct_key_eq)

lemma map_key_preserved:
  "\<forall>e\<in>set xs. f (g e) = f e \<Longrightarrow> map f (map g xs) = map f xs"
  by (induction xs) auto

lemma find_replace_same:
  "find (\<lambda>d. k d = x) xs = Some s \<Longrightarrow> p s \<Longrightarrow> k r = x \<Longrightarrow>
   find (\<lambda>d. k d = x) (map (\<lambda>e. if p e then r else e) xs) = Some r"
  by (induction xs) (auto split: if_splits)

lemma find_replace_other:
  "\<forall>e\<in>set xs. p e \<longrightarrow> k e = x \<Longrightarrow> k r = x \<Longrightarrow> y \<noteq> x \<Longrightarrow>
   find (\<lambda>d. k d = y) (map (\<lambda>e. if p e then r else e) xs) = find (\<lambda>d. k d = y) xs"
  by (induction xs) auto

lemma raw_id_set_loki [simp]: "raw_id (set_loki d l) = raw_id d"
  by (simp add: set_loki_def)

lemma loki_of_set_loki [simp]: "loki_of (set_loki d l) = l"
  by (simp add: set_loki_def loki_of_def)

lemma coll_update_saved:
  assumes wf: "wf_collection c" and found: "coll_by_id c (raw_id raw) = Some saved"
  shows "\<exists>c'. coll_update c (set_loki raw (loki_of saved)) = Inr c'
           \<and> coll_by_id c' (raw_id raw) = Some (set_loki raw (loki_of saved))
           \<and> (\<forall>y. y \<noteq> raw_id raw \<longrightarrow> coll_by_id c' y = coll_by_id c y)
           \<and> wf_collection c' \<and> maxId c' = maxId c \<and> binaryIndices c' = binaryIndices c
           \<and> length (data c') = length (data c)"
proof -
  from found have mem: "saved \<in> set (data c)" and sid: "raw_id saved = raw_id raw"
    by (auto dest: coll_by_id_SomeD)
  from wf_loki [OF wf mem] obtain l where l: "loki_of saved = Some (Num l)" "l \<le> maxId c" by blast
  have get: "coll_get c (Some (Num l)) = Some saved"
    using wf_coll_get [OF wf mem] l by simp
  let ?r = "set_loki raw (Some (Num l))"
  let ?g = "\<lambda>e. if loki_of e = Some (Num l) then ?r else e"
  let ?c = "c\<lparr>data := map ?g (data c)\<rparr>"
  have upd: "coll_update c ?r = Inr ?c"
    using get sid by (simp add: coll_update_def)
  have only: "\<forall>e\<in>set (data c). loki_of e = Some (Num l) \<longrightarrow> e = saved"
    using wf_same_loki [OF wf mem] l by simp
  have b1: "coll_by_id ?c (raw_id raw) = Some ?r"
    using found l unfolding coll_by_id_def
    by (simp add: find_replace_same [where p = "\<lambda>e. loki_of e = Some (Num l)"])
  have b2: "\<forall>y. y \<noteq> raw_id raw \<longrightarrow> coll_by_id ?c y = coll_by_id c y"
    unfolding coll_by_id_def using only sid
    by (auto intro!: find_replace_other [where p = "\<lambda>e. loki_of e = Some (Num l)" and x = "raw_id raw"])
  have ids: "map raw_id (map ?g (data c)) = map raw_id (data c)"
    using only sid by (intro map_key_preserved) auto
  have lks: "map loki_of (map ?g (data c)) = map loki_of (data c)"
    by (intro map_key_preserved) auto
  have bound: "list_all (has_loki_upto (maxId c)) (map ?g (data c))"
    using wf l by (auto simp: wf_collection_def list_all_iff has_loki_upto_def)
  have wf': "wf_collection ?c"
    using wf ids lks bound by (simp add: wf_collection_def del: map_map)
  show ?thesis using upd b1 b2 wf' l by auto
qed


lemma find_filter_conj: "find P (filter Q xs) = find (\<lambda>e. Q e \<and> P e) xs"
  by (induction xs) auto

lemma coll_remove_found:
  assumes wf: "wf_collection c" and found: "coll_by_id c x = Some d"
  shows "\<exists>c'. coll_remove c (Some d) = Inr c'
           \<and> data c' = filter (\<lambda>e. raw_id e \<noteq> x) (data c)
           \<and> coll_by_id c' x = None
           \<and> (\<forall>y. y \<noteq> x \<longrightarrow> coll_by_id c' y = coll_by_id c y)
           \<and> wf_collection c' \<and> maxId c' = maxId c \<and> binaryIndices c' = binaryIndices c"
proof -
  from found have mem: "d \<in> set (data c)" and did: "raw_id d = x"
    by (auto dest: coll_by_id_SomeD)
  from wf_loki [OF wf mem] obtain l where l: "loki_of d = Some (Num l)" "l \<le> maxId c" by blast
  have get: "coll_get c (Some (Num l)) = Some d"
    using wf_coll_get [OF wf mem] l by simp
  let ?c = "c\<lparr>data := filter (\<lambda>e. loki_of e \<noteq> Some (Num l)) (data c)\<rparr>"
  have rem: "coll_remove c (Some d) = Inr ?c"
    using get l by (simp add: coll_remove_def)
  have same: "\<forall>e\<in>set (data c). (loki_of e \<noteq> Some (Num l)) = (raw_id e \<noteq> x)"
    using wf_same_loki [OF wf mem] wf_same_id [OF wf mem] l did by metis
  then have dat: "data ?c = filter (\<lambda>e. raw_id e \<noteq> x) (data c)"
    by (simp cong: filter_cong)
  have b1: "coll_by_id ?c x = None"
    unfolding coll_by_id_def dat by (simp add: find_None_iff)
  have b2: "\<forall>y. y \<noteq> x \<longrightarrow> coll_by_id ?c y = coll_by_id c y"
    unfolding coll_by_id_def dat find_filter_conj
    by (auto intro: arg_cong2 [where f = find])
  have wf': "wf_collection ?c"
    using wf unfolding wf_collection_def
    by (simp add: distinct_map_filter list_all_iff)
  show ?thesis using rem dat b1 b2 wf' by auto
qed


lemma find_append_old:
  "find P xs = Some d \<Longrightarrow> find P (xs @ ys) = Some d"
  by (induction xs) (auto split: if_splits)



subsection \<open>Update\<close>

lemma sample_collection_wf: "wf_collection sample_collection"
  by (simp add: wf_collection_def has_loki_upto_def loki_of_def sample_defs)


lemma sample_update_found: "coll_by_id sample_collection (raw_id sample_update) = Some sample_saved"
  by (simp add: coll_by_id_def sample_defs)

text \<open>
  Claim C10. When the store holds a record with the id of \<open>raw\<close>, \<open>update\<close> succeeds:
  it takes the internal identity of the saved record, and afterwards the lookup of that id
  yields \<open>raw\<close> carrying that identity, every other id yields what it did, no record is
  added and the cache is as before. When no record with that id exists (or the table has
  no collection), \<open>update\<close> fails with a TypeError and the executor, store and cache, is
  unchanged.
\<close>

theorem update_requires_record:
  "(wf_collection c \<and> getCollection (loki ex) t = Some c
      \<and> coll_by_id c (raw_id raw) = Some saved \<longrightarrow>
      (\<exists>c'. update ex t raw = Inr (with_collection ex t c')
         \<and> coll_by_id c' (raw_id raw) = Some (set_loki raw (loki_of saved))
         \<and> (\<forall>y. y \<noteq> raw_id raw \<longrightarrow> coll_by_id c' y = coll_by_id c y)
         \<and> length (data c') = length (data c)
         \<and> cachedRecords (with_collection ex t c') = cachedRecords ex))
   \<and> ((\<forall>c. getCollection (loki ex) t = Some c \<longrightarrow> coll_by_id c (raw_id raw) = None) \<longrightarrow>
        update ex t raw = Inl (TypeError, ex))"
proof (intro conjI impI)
  assume h: "wf_collection c \<and> getCollection (loki ex) t = Some c
      \<and> coll_by_id c (raw_id raw) = Some saved"
  from coll_update_saved [of c raw saved] h obtain c' where
    c': "coll_update c (set_loki raw (loki_of saved)) = Inr c'"
      "coll_by_id c' (raw_id raw) = Some (set_loki raw (loki_of saved))"
      "\<forall>y. y \<noteq> raw_id raw \<longrightarrow> coll_by_id c' y = coll_by_id c y"
      "length (data c') = length (data c)"
    by blast
  have "update ex t raw = Inr (with_collection ex t c')"
    using h c'(1) by (simp add: update_def)
  with c' show "\<exists>c'. update ex t raw = Inr (with_collection ex t c')
         \<and> coll_by_id c' (raw_id raw) = Some (set_loki raw (loki_of saved))
         \<and> (\<forall>y. y \<noteq> raw_id raw \<longrightarrow> coll_by_id c' y = coll_by_id c y)
         \<and> length (data c') = length (data c)
         \<and> cachedRecords (with_collection ex t c') = cachedRecords ex"
    by (auto simp: cachedRecords_with_collection)
next
  assume "\<forall>c. getCollection (loki ex) t = Some c \<longrightarrow> coll_by_id c (raw_id raw) = None"
  then show "update ex t raw = Inl (TypeError, ex)"
    by (simp add: update_def split: option.splits)
qed

theorem update_requires_record_witness:
  "wf_collection sample_collection
   \<and> getCollection (loki sample_executor) ''tasks'' = Some sample_collection
   \<and> coll_by_id sample_collection (raw_id sample_update) = Some sample_saved
   \<and> (\<exists>c'. update sample_executor ''tasks'' sample_update =
              Inr (with_collection sample_executor ''tasks'' c')
         \<and> coll_by_id c' ''a'' = Some (set_loki sample_update (Some (Num 1)))
         \<and> length (data c') = 1)
   \<and> coll_by_id sample_empty_collection (raw_id sample_update) = None
   \<and> update sample_empty_executor ''tasks'' sample_update = Inl (TypeError, sample_empty_executor)"
proof -
  have a: "raw_id sample_update = ''a''" "loki_of sample_saved = Some (Num 1)"
    "length (data sample_collection) = 1"
    by (simp_all add: loki_of_def sample_defs)
  have b: "\<forall>c. getCollection (loki sample_empty_executor) ''tasks'' = Some c \<longrightarrow>
               coll_by_id c (raw_id sample_update) = None"
    using sample_empty_executor_facts a by simp
  show ?thesis
    using update_requires_record [of sample_collection sample_executor "''tasks''" sample_update sample_saved]
      update_requires_record [of _ sample_empty_executor "''tasks''" sample_update]
      sample_collection_wf sample_executor_facts sample_update_found sample_empty_executor_facts a b
    by auto
qed

subsection \<open>Destroying deleted records\<close>

lemma destroyDeletedRecords_wf:
  "getCollection (loki ex) t = Some c \<Longrightarrow> wf_collection c \<Longrightarrow>
   \<exists>ex' c'. destroyDeletedRecords ex t ids = Inr ex'
     \<and> getCollection (loki ex') t = Some c' \<and> wf_collection c'
     \<and> cachedRecords ex' = cachedRecords ex
     \<and> (\<forall>y. coll_by_id c y = None \<longrightarrow> coll_by_id c' y = None)
     \<and> (\<forall>x\<in>set ids. coll_by_id c' x = None)"
proof (induction ids arbitrary: ex c)
  case Nil
  then show ?case by simp
next
  case (Cons i ids)
  show ?case
  proof (cases "coll_by_id c i")
    case None
    from Cons.IH [OF Cons.prems] obtain ex' c' where
      r: "destroyDeletedRecords ex t ids = Inr ex'" "getCollection (loki ex') t = Some c'"
        "wf_collection c'" "cachedRecords ex' = cachedRecords ex"
        "\<forall>y. coll_by_id c y = None \<longrightarrow> coll_by_id c' y = None"
        "\<forall>x\<in>set ids. coll_by_id c' x = None"
      by blast
    have "destroyDeletedRecords ex t (i # ids) = Inr ex'"
      using None Cons.prems r(1) by simp
    with r None show ?thesis by auto
  next
    case (Some d)
    from coll_remove_found [OF Cons.prems(2) Some] obtain c1 where
      c1: "coll_remove c (Some d) = Inr c1" "coll_by_id c1 i = None"
        "\<forall>y. y \<noteq> i \<longrightarrow> coll_by_id c1 y = coll_by_id c y" "wf_collection c1"
      by blast
    let ?ex1 = "with_collection ex t c1"
    have g1: "getCollection (loki ?ex1) t = Some c1"
      by (simp add: getCollection_with_collection)
    from Cons.IH [OF g1 c1(4)] obtain ex' c' where
      r: "destroyDeletedRecords ?ex1 t ids = Inr ex'" "getCollection (loki ex') t = Some c'"
        "wf_collection c'" "cachedRecords ex' = cachedRecords ?ex1"
        "\<forall>y. coll_by_id c1 y = None \<longrightarrow> coll_by_id c' y = None"
        "\<forall>x\<in>set ids. coll_by_id c' x = None"
      by blast
    have run: "destroyDeletedRecords ex t (i # ids) = Inr ex'"
      using Some Cons.prems c1(1) r(1) by simp
    have keep: "\<forall>y. coll_by_id c y = None \<longrightarrow> coll_by_id c' y = None"
      using c1(2,3) r(5) by metis
    show ?thesis
      using run r(2,3,4,6) keep c1(2) r(5) by (auto simp: cachedRecords_with_collection)
  qed
qed

lemma sample_cached_executor_facts:
  "getCollection (loki sample_cached_executor) ''tasks'' = Some sample_collection"
  "isCached sample_cached_executor ''tasks'' ''a''"
  by (simp_all add: getCollection_def isCached_def sample_defs)

text \<open>
  Claim C3. \<open>destroyDeletedRecords\<close> removes the records of the listed ids from the
  store and does not touch the record cache: on a consistent collection it returns,
  afterwards the collection has no record for any listed id, the cache is the cache
  before the call, and for a listed id that was cached \<open>find\<close> still returns the bare
  identity.
\<close>

theorem destroyDeletedRecords_keeps_cache:
  assumes "getCollection (loki ex) t = Some c" and "wf_collection c"
  shows "\<exists>ex' c'. destroyDeletedRecords ex t ids = Inr ex'
     \<and> getCollection (loki ex') t = Some c'
     \<and> cachedRecords ex' = cachedRecords ex
     \<and> (\<forall>x\<in>set ids. coll_by_id c' x = None
           \<and> (isCached ex t x \<longrightarrow>
                 isCached ex' t x \<and> find_record san ex' t x = Inr (Bare x, ex')))"
proof -
  from destroyDeletedRecords_wf [OF assms, of ids] obtain ex' c' where
    r: "destroyDeletedRecords ex t ids = Inr ex'" "getCollection (loki ex') t = Some c'"
      "cachedRecords ex' = cachedRecords ex" "\<forall>x\<in>set ids. coll_by_id c' x = None"
    by blast
  have "\<forall>x. isCached ex t x \<longrightarrow> isCached ex' t x \<and> find_record san ex' t x = Inr (Bare x, ex')"
    using r(3) by (simp add: find_record_def isCached_def)
  with r show ?thesis by blast
qed

theorem destroyDeletedRecords_keeps_cache_witness:
  "getCollection (loki sample_cached_executor) ''tasks'' = Some sample_collection
   \<and> wf_collection sample_collection
   \<and> coll_by_id sample_collection ''a'' = Some sample_saved
   \<and> isCached sample_cached_executor ''tasks'' ''a''
   \<and> (\<exists>ex' c'. destroyDeletedRecords sample_cached_executor ''tasks'' [''a''] = Inr ex'
        \<and> getCollection (loki ex') ''tasks'' = Some c'
        \<and> coll_by_id c' ''a'' = None
        \<and> isCached ex' ''tasks'' ''a''
        \<and> find_record sample_sanitizer ex' ''tasks'' ''a'' = Inr (Bare ''a'', ex'))"
  using destroyDeletedRecords_keeps_cache [OF sample_cached_executor_facts(1) sample_collection_wf,
      of "[''a'']" sample_sanitizer]
    sample_cached_executor_facts sample_collection_wf sample_executor_facts(3)
  by auto

subsection \<open>Batches\<close>



lemma destroyPermanently_found:
  assumes "getCollection (loki ex) t = Some c" and "wf_collection c"
    and "coll_by_id c x = Some d"
  shows "\<exists>c'. destroyPermanently ex t x = Inr (removeFromCache (with_collection ex t c') t x)
           \<and> wf_collection c'
           \<and> coll_by_id c' x = None
           \<and> (\<forall>y. y \<noteq> x \<longrightarrow> coll_by_id c' y = coll_by_id c y)"
proof -
  from coll_remove_found [OF assms(2,3)] obtain c' where
    c': "coll_remove c (Some d) = Inr c'" "wf_collection c'" "coll_by_id c' x = None"
      "\<forall>y. y \<noteq> x \<longrightarrow> coll_by_id c' y = coll_by_id c y"
    by blast
  have "destroyPermanently ex t x = Inr (removeFromCache (with_collection ex t c') t x)"
    using assms(1,3) c'(1) by (simp add: destroyPermanently_def)
  with c' show ?thesis by blast
qed



subsection \<open>Eviction from the cache\<close>

lemma find_mutate_first:
  "find P ds = Some d \<Longrightarrow> P (f d) \<Longrightarrow> find P (mutate_first P f ds) = Some (f d)"
  by (induction ds) (auto split: if_splits)

lemma raw_id_set_status [simp]: "raw_id (set_status d) = raw_id d"
  by (simp add: set_status_def)

lemma loki_of_set_status [simp]: "loki_of (set_status d) = loki_of d"
  by (simp add: set_status_def loki_of_def)

lemma coll_update_by_id:
  assumes "coll_update c r = Inr c'" and "coll_by_id c (raw_id r) = Some s"
    and "loki_of s = loki_of r"
  shows "coll_by_id c' (raw_id r) = Some r"
proof -
  from assms(1) obtain l where l: "loki_of r = Some (Num l)"
    and c': "c' = c\<lparr>data := map (\<lambda>e. if loki_of e = Some (Num l) then r else e) (data c)\<rparr>"
    by (auto simp: coll_update_def split: option.splits val.splits if_splits)
  show ?thesis
    using assms(2,3) l unfolding c' coll_by_id_def
    by (simp add: find_replace_same [where p = "\<lambda>e. loki_of e = Some (Num l)"])
qed

lemma markAsDeleted_found:
  assumes "getCollection (loki ex) t = Some c" and "coll_by_id c x = Some rcd"
    and "markAsDeleted ex t x = Inr ex'"
  shows "\<exists>c'. ex' = removeFromCache (with_collection ex t c') t x
           \<and> coll_by_id c' x = Some (set_status rcd)"
proof -
  let ?a = "coll_assign c x set_status"
  from assms obtain c' where
    u: "coll_update ?a (set_status rcd) = Inr c'"
    and e: "ex' = removeFromCache (with_collection ex t c') t x"
    by (auto simp: markAsDeleted_def Let_def split: sum.splits)
  have rid: "raw_id rcd = x" using assms(2) by (auto dest: coll_by_id_SomeD)
  have "coll_by_id ?a x = Some (set_status rcd)"
    using assms(2) rid unfolding coll_by_id_def coll_assign_def
    by (simp add: find_mutate_first)
  then have "coll_by_id c' (raw_id (set_status rcd)) = Some (set_status rcd)"
    using u rid by (intro coll_update_by_id [of ?a _ c' "set_status rcd"]) simp_all
  with e rid show ?thesis by auto
qed

lemma destroyPermanently_InrD:
  assumes "getCollection (loki ex) t = Some c" and "destroyPermanently ex t x = Inr ex'"
  shows "\<exists>c' d. coll_by_id c x = Some d \<and> coll_remove c (Some d) = Inr c'
           \<and> ex' = removeFromCache (with_collection ex t c') t x"
proof (cases "coll_by_id c x")
  case None
  then have "coll_remove c (coll_by_id c x) = Inl (StoreError ''Parameter is not an object'')"
    by (simp add: coll_remove_def)
  with assms show ?thesis by (simp add: destroyPermanently_def)
next
  case (Some d)
  with assms show ?thesis
    by (cases "coll_remove c (Some d)") (simp_all add: destroyPermanently_def)
qed

text \<open>
  Claim C1, as the code has it, for a table \<open>t\<close> of the schema that has a collection.
  After a \<open>destroyPermanently\<close> of \<open>x\<close> that returns, \<open>find\<close> returns absent or a full
  sanitized record, never the bare identity, and absent when the collection was
  consistent. A \<open>destroyPermanently\<close> of an \<open>x\<close> that has no record does not return:
  the store refuses the removal, and nothing is evicted. After a \<open>markAsDeleted\<close> of an
  \<open>x\<close> that has a record in the store, \<open>find\<close> returns the full sanitized record, which
  now carries the status deleted. A \<open>markAsDeleted\<close> of an \<open>x\<close> that has no record
  changes nothing, the cache included: \<open>find\<close> then returns absent when \<open>x\<close> is not
  cached, and the bare identity when \<open>x\<close> is still cached.
\<close>

theorem find_after_eviction:
  assumes "getCollection (loki ex) t = Some c"
    and "map_of (tables (schema ex)) t = Some tableSchema"
  shows "(destroyPermanently ex t x = Inr ex' \<longrightarrow>
            (find_record san ex' t x = Inr (Absent, ex')
             \<or> (\<exists>raw. find_record san ex' t x =
                    Inr (Full (san raw tableSchema), markAsCached ex' t x)))
          \<and> (wf_collection c \<longrightarrow> find_record san ex' t x = Inr (Absent, ex')))
       \<and> (coll_by_id c x = None \<longrightarrow>
            destroyPermanently ex t x = Inl (StoreError ''Parameter is not an object'', ex))
       \<and> (markAsDeleted ex t x = Inr ex' \<and> coll_by_id c x = Some rcd \<longrightarrow>
            props (set_status rcd) ''_status'' = Some (Str ''deleted'')
            \<and> find_record san ex' t x =
                Inr (Full (san (set_status rcd) tableSchema), markAsCached ex' t x))
       \<and> (coll_by_id c x = None \<longrightarrow> markAsDeleted ex t x = Inr ex)
       \<and> (coll_by_id c x = None \<and> \<not> isCached ex t x \<longrightarrow>
            find_record san ex t x = Inr (Absent, ex))
       \<and> (coll_by_id c x = None \<and> isCached ex t x \<longrightarrow>
            find_record san ex t x = Inr (Bare x, ex))"
proof (intro conjI impI)
  assume d: "destroyPermanently ex t x = Inr ex'"
  from destroyPermanently_InrD [OF assms(1) d] obtain c' d where
    r: "coll_by_id c x = Some d" "coll_remove c (Some d) = Inr c'"
      "ex' = removeFromCache (with_collection ex t c') t x"
    by blast
  have nc: "\<not> isCached ex' t x" and g: "getCollection (loki ex') t = Some c'"
    and s: "schema ex' = schema ex"
    using r(3) by (simp_all add: isCached_removeFromCache loki_removeFromCache
        getCollection_with_collection schema_removeFromCache schema_with_collection)
  show "find_record san ex' t x = Inr (Absent, ex')
      \<or> (\<exists>raw. find_record san ex' t x = Inr (Full (san raw tableSchema), markAsCached ex' t x))"
    using nc g s assms(2) by (cases "coll_by_id c' x") (auto simp: find_record_def)
  assume "wf_collection c"
  from coll_remove_found [OF this r(1)] r(2) have "coll_by_id c' x = None" by auto
  then show "find_record san ex' t x = Inr (Absent, ex')"
    using nc g by (simp add: find_record_def)
next
  assume "coll_by_id c x = None"
  then show "destroyPermanently ex t x = Inl (StoreError ''Parameter is not an object'', ex)"
    using assms(1) by (simp add: destroyPermanently_def coll_remove_def)
next
  assume "markAsDeleted ex t x = Inr ex' \<and> coll_by_id c x = Some rcd"
  with markAsDeleted_found [OF assms(1), of x rcd ex'] obtain c' where
    r: "ex' = removeFromCache (with_collection ex t c') t x"
      "coll_by_id c' x = Some (set_status rcd)"
    by blast
  have nc: "\<not> isCached ex' t x" and g: "getCollection (loki ex') t = Some c'"
    and s: "schema ex' = schema ex"
    using r(1) by (simp_all add: isCached_removeFromCache loki_removeFromCache
        getCollection_with_collection schema_removeFromCache schema_with_collection)
  show "find_record san ex' t x =
      Inr (Full (san (set_status rcd) tableSchema), markAsCached ex' t x)"
    using nc g s r(2) assms(2) by (simp add: find_record_def)
next
  show "props (set_status rcd) ''_status'' = Some (Str ''deleted'')"
    by (simp add: set_status_def)
next
  assume "coll_by_id c x = None"
  then show "markAsDeleted ex t x = Inr ex"
    using assms(1) by (simp add: markAsDeleted_def)
next
  assume "coll_by_id c x = None \<and> \<not> isCached ex t x"
  then show "find_record san ex t x = Inr (Absent, ex)"
    using assms(1) by (simp add: find_record_def)
next
  assume "coll_by_id c x = None \<and> isCached ex t x"
  then show "find_record san ex t x = Inr (Bare x, ex)"
    by (simp add: find_record_def)
qed

text \<open>
  The claim as the specification states it fails, in three ways. A record that was
  created, so that its id is cached, and then removed by \<open>destroyDeletedRecords\<close>, which
  leaves the cache alone, is no longer in the store; \<open>markAsDeleted\<close> finds no record,
  skips the eviction, and \<open>find\<close> returns the bare identity. In the same state a call of
  \<open>destroyPermanently\<close> fails in the store before it evicts, and \<open>find\<close> returns the
  bare identity after it as well. And after \<open>markAsDeleted\<close> of a record that is in the
  store, \<open>find\<close> returns neither absent nor a record created anew: the record stays in
  the store with the status deleted, and it is what \<open>find\<close> returns.
\<close>

theorem find_after_eviction_counterexample:
  "create sample_empty_executor ''tasks'' sample_raw = Inr sample_cached_executor
   \<and> destroyDeletedRecords sample_cached_executor ''tasks'' [''a''] = Inr sample_stale_executor
   \<and> markAsDeleted sample_stale_executor ''tasks'' ''a'' = Inr sample_stale_executor
   \<and> destroyPermanently sample_stale_executor ''tasks'' ''a'' =
       Inl (StoreError ''Parameter is not an object'', sample_stale_executor)
   \<and> find_record sample_sanitizer sample_stale_executor ''tasks'' ''a'' =
       Inr (Bare ''a'', sample_stale_executor)
   \<and> markAsDeleted sample_cached_executor ''tasks'' ''a'' = Inr sample_deleted_executor
   \<and> find_record sample_sanitizer sample_deleted_executor ''tasks'' ''a'' =
       Inr (Full (sample_sanitizer (set_status sample_saved) sample_table),
            markAsCached sample_deleted_executor ''tasks'' ''a'')"
  by (simp add: create_def markAsDeleted_def destroyPermanently_def find_record_def
      getCollection_def coll_insert_def coll_remove_def coll_get_def coll_by_id_def
      coll_update_def coll_assign_def loki_of_def set_loki_def set_status_def markAsCached_def
      removeFromCache_def isCached_def with_collection_def setCollection_def sample_defs)

lemma sample_stale_executor_facts:
  "getCollection (loki sample_stale_executor) ''tasks'' =
     Some \<lparr>data = [], maxId = 1, binaryIndices = [''_status'']\<rparr>"
  "map_of (tables (schema sample_stale_executor)) ''tasks'' = Some sample_table"
  "coll_by_id \<lparr>data = [], maxId = 1, binaryIndices = [''_status'']\<rparr> ''a'' = None"
  "isCached sample_stale_executor ''tasks'' ''a''"
  by (simp_all add: getCollection_def coll_by_id_def isCached_def sample_defs)

theorem find_after_eviction_witness:
  "getCollection (loki sample_cached_executor) ''tasks'' = Some sample_collection
   \<and> map_of (tables (schema sample_cached_executor)) ''tasks'' = Some sample_table
   \<and> wf_collection sample_collection
   \<and> coll_by_id sample_collection ''a'' = Some sample_saved
   \<and> (\<exists>ex'. destroyPermanently sample_cached_executor ''tasks'' ''a'' = Inr ex'
         \<and> find_record sample_sanitizer ex' ''tasks'' ''a'' = Inr (Absent, ex'))
   \<and> (\<exists>ex'. markAsDeleted sample_cached_executor ''tasks'' ''a'' = Inr ex'
         \<and> find_record sample_sanitizer ex' ''tasks'' ''a'' =
             Inr (Full (sample_sanitizer (set_status sample_saved) sample_table),
                  markAsCached ex' ''tasks'' ''a''))
   \<and> coll_by_id sample_empty_collection ''a'' = None
   \<and> \<not> isCached sample_empty_executor ''tasks'' ''a''
   \<and> markAsDeleted sample_empty_executor ''tasks'' ''a'' = Inr sample_empty_executor
   \<and> find_record sample_sanitizer sample_empty_executor ''tasks'' ''a'' =
       Inr (Absent, sample_empty_executor)
   \<and> isCached sample_stale_executor ''tasks'' ''a''
   \<and> markAsDeleted sample_stale_executor ''tasks'' ''a'' = Inr sample_stale_executor
   \<and> destroyPermanently sample_stale_executor ''tasks'' ''a'' =
       Inl (StoreError ''Parameter is not an object'', sample_stale_executor)
   \<and> find_record sample_sanitizer sample_stale_executor ''tasks'' ''a'' =
       Inr (Bare ''a'', sample_stale_executor)"
proof -
  note g = sample_cached_executor_facts(1)
  note f = sample_executor_facts(3)
  note sc = sample_schema_facts(2)
  from destroyPermanently_found [OF g sample_collection_wf f] obtain ex1 where
    d: "destroyPermanently sample_cached_executor ''tasks'' ''a'' = Inr ex1"
    by blast
  have "\<exists>ex2. markAsDeleted sample_cached_executor ''tasks'' ''a'' = Inr ex2"
    by (simp add: markAsDeleted_def getCollection_def coll_by_id_def coll_assign_def
        coll_update_def coll_get_def loki_of_def set_status_def sample_defs)
  then obtain ex2 where
    m: "markAsDeleted sample_cached_executor ''tasks'' ''a'' = Inr ex2"
    by blast
  show ?thesis
    using find_after_eviction [OF g sc, where x = "''a''" and ex' = ex1 and san = sample_sanitizer]
      find_after_eviction [OF g sc, where x = "''a''" and ex' = ex2 and san = sample_sanitizer
        and rcd = sample_saved]
      find_after_eviction [OF sample_empty_executor_facts(1) sample_schema_facts(3),
        where x = "''a''" and san = sample_sanitizer]
      find_after_eviction [OF sample_stale_executor_facts(1,2),
        where x = "''a''" and san = sample_sanitizer]
      g f sc d m sample_collection_wf sample_empty_executor_facts sample_stale_executor_facts
    by auto
qed

subsection \<open>Printing and parsing a version\<close>

declare string_of_nat.simps [simp del]
declare bitlen.simps [simp del]
declare shortest.simps [simp del]

lemma string_of_nat_nonempty: "string_of_nat n \<noteq> []"
  by (subst string_of_nat.simps) simp

lemma string_of_nat_bounds:
  "0 < x \<Longrightarrow> 10 ^ (length (string_of_nat x) - 1) \<le> x \<and> x < 10 ^ length (string_of_nat x)"
proof (induction x rule: string_of_nat.induct)
  case (1 n)
  show ?case
  proof (cases "n < 10")
    case True
    then show ?thesis using 1(2) by (subst (1 2) string_of_nat.simps) simp
  next
    case False
    then have pos: "0 < n div 10" by simp
    let ?m = "length (string_of_nat (n div 10))"
    from 1(1) [OF False pos] have ih: "10 ^ (?m - 1) \<le> n div 10" "n div 10 < 10 ^ ?m"
      by simp_all
    have len: "length (string_of_nat n) = Suc ?m"
      using False by (subst string_of_nat.simps) simp
    have m1: "0 < ?m" using string_of_nat_nonempty [of "n div 10"] by simp
    have lo: "10 ^ ?m \<le> n"
    proof -
      have "10 * 10 ^ (?m - 1) \<le> 10 * (n div 10)" using ih(1) by simp
      moreover have "10 * 10 ^ (?m - 1) = (10::nat) ^ ?m"
        using m1 by (cases ?m) simp_all
      moreover have "10 * (n div 10) \<le> n" by simp
      ultimately show ?thesis by linarith
    qed
    have hi: "n < 10 ^ Suc ?m"
    proof -
      have "n div 10 + 1 \<le> 10 ^ ?m" using ih(2) by simp
      then have "10 * (n div 10 + 1) \<le> 10 * 10 ^ ?m" by (rule mult_le_mono2)
      moreover have "n < 10 * (n div 10 + 1)" by (simp add: div_less_iff_less_mult mult.commute)
      ultimately show ?thesis by simp
    qed
    show ?thesis using lo hi len by simp
  qed
qed

lemma string_of_nat_length:
  assumes "0 < k" and "10 ^ (k - 1) \<le> x" and "x < 10 ^ k"
  shows "length (string_of_nat x) = k"
proof -
  have "0 < (10::nat) ^ (k - 1)" by simp
  then have pos: "0 < x" using assms(2) by linarith
  let ?d = "length (string_of_nat x)"
  from string_of_nat_bounds [OF pos] have b: "10 ^ (?d - 1) \<le> x" "x < 10 ^ ?d" by simp_all
  have d1: "0 < ?d" using string_of_nat_nonempty [of x] by simp
  have "(10::nat) ^ (k - 1) < 10 ^ ?d" using assms(2) b(2) by linarith
  then have "k - 1 < ?d" by (simp add: power_strict_increasing_iff)
  moreover have "(10::nat) ^ (?d - 1) < 10 ^ k" using assms(3) b(1) by linarith
  then have "?d - 1 < k" by (simp add: power_strict_increasing_iff)
  ultimately show ?thesis using assms(1) d1 by linarith
qed

lemma digit_char_0: "digit_char 0 = CHR ''0''"
  by code_simp

lemma string_of_nat_times_10:
  "0 < t \<Longrightarrow> string_of_nat (10 * t) = string_of_nat t @ [CHR ''0'']"
  by (subst string_of_nat.simps) (simp add: digit_char_0)

lemma string_of_nat_shift:
  "0 < s \<Longrightarrow> string_of_nat (s * 10 ^ m) = string_of_nat s @ replicate m (CHR ''0'')"
proof (induction m)
  case 0
  then show ?case by simp
next
  case (Suc m)
  have "string_of_nat (s * 10 ^ Suc m) = string_of_nat (10 * (s * 10 ^ m))"
    by (simp add: ac_simps)
  also have "\<dots> = string_of_nat (s * 10 ^ m) @ [CHR ''0'']"
    using Suc.prems by (intro string_of_nat_times_10) simp
  also have "\<dots> = string_of_nat s @ replicate m (CHR ''0'') @ [CHR ''0'']"
    using Suc by simp
  finally show ?case by (simp add: replicate_append_same)
qed

lemma bitlen_bounds: "0 < n \<Longrightarrow> 2 ^ (bitlen n - 1) \<le> n \<and> n < 2 ^ bitlen n"
proof (induction n rule: bitlen.induct)
  case (1 n)
  show ?case
  proof (cases "n div 2 = 0")
    case True
    then have "n = 1" using 1(2) by (auto simp: div_eq_0_iff)
    then show ?thesis by (simp add: bitlen.simps)
  next
    case False
    then have pos: "0 < n div 2" by simp
    have n0: "n \<noteq> 0" using 1(2) by simp
    from 1(1) [OF n0 pos] have ih: "2 ^ (bitlen (n div 2) - 1) \<le> n div 2" "n div 2 < 2 ^ bitlen (n div 2)"
      by simp_all
    have len: "bitlen n = Suc (bitlen (n div 2))" using n0 by (subst bitlen.simps) simp
    have b1: "0 < bitlen (n div 2)" using pos by (subst bitlen.simps) simp
    have "2 * 2 ^ (bitlen (n div 2) - 1) \<le> 2 * (n div 2)" using ih(1) by simp
    moreover have "2 * 2 ^ (bitlen (n div 2) - 1) = (2::nat) ^ bitlen (n div 2)"
      using b1 by (cases "bitlen (n div 2)") simp_all
    ultimately have lo: "2 ^ bitlen (n div 2) \<le> n" by (simp add: le_trans)
    have "n div 2 + 1 \<le> 2 ^ bitlen (n div 2)" using ih(2) by simp
    then have "2 * (n div 2 + 1) \<le> 2 * 2 ^ bitlen (n div 2)" by (rule mult_le_mono2)
    moreover have "n < 2 * (n div 2 + 1)" by (simp add: div_less_iff_less_mult mult.commute)
    ultimately have hi: "n < 2 ^ Suc (bitlen (n div 2))" by simp
    show ?thesis using lo hi len by simp
  qed
qed

lemma bitlen_eq:
  assumes "2 ^ k \<le> n" and "n < 2 ^ Suc k"
  shows "bitlen n = Suc k"
proof -
  have "0 < (2::nat) ^ k" by simp
  then have pos: "0 < n" using assms(1) by linarith
  from bitlen_bounds [OF pos] have b: "2 ^ (bitlen n - 1) \<le> n" "n < 2 ^ bitlen n" by simp_all
  have b1: "0 < bitlen n" using pos by (subst bitlen.simps) simp
  have "(2::nat) ^ k < 2 ^ bitlen n" using assms(1) b(2) by linarith
  then have "k < bitlen n" by (simp add: power_strict_increasing_iff)
  moreover have "(2::nat) ^ (bitlen n - 1) < 2 ^ Suc k" using assms(2) b(1) by linarith
  then have "bitlen n - 1 < Suc k" by (simp only: power_strict_increasing_iff)
  ultimately show ?thesis using b1 by linarith
qed

lemma round53_small: "n < 2 ^ 53 \<Longrightarrow> round53 n = n"
  by (simp add: round53_def)



lemma div_digits:
  assumes "0 < x" and "d = length (string_of_nat x)" and "1 \<le> k" and "k < d"
  shows "length (string_of_nat (x div 10 ^ (d - k))) = k"
proof -
  from string_of_nat_bounds [OF assms(1)] assms(2)
  have b: "10 ^ (d - 1) \<le> x" "x < 10 ^ d" by simp_all
  have e1: "(10::nat) ^ (d - 1) = 10 ^ (k - 1) * 10 ^ (d - k)"
    using assms(3,4) by (simp add: power_add [symmetric])
  have e2: "(10::nat) ^ d = 10 ^ k * 10 ^ (d - k)"
    using assms(4) by (simp add: power_add [symmetric])
  have lo: "10 ^ (k - 1) \<le> x div 10 ^ (d - k)"
    using b(1) unfolding e1 by (simp add: less_eq_div_iff_mult_less_eq)
  have hi: "x div 10 ^ (d - k) < 10 ^ k"
    using b(2) unfolding e2 by (simp add: div_less_iff_less_mult)
  show ?thesis using assms(3) lo hi by (intro string_of_nat_length) simp_all
qed




lemma digitValue_digit_char: "n < 10 \<Longrightarrow> digitValue (digit_char n) = n"
  by (simp add: digitValue_def digit_char_def)

lemma isDigit_digit_char: "n < 10 \<Longrightarrow> isDigit (digit_char n)"
  by (simp add: isDigit_def digit_char_def)

lemma string_of_nat_digits: "\<forall>ch\<in>set (string_of_nat n). isDigit ch"
proof (induction n rule: string_of_nat.induct)
  case (1 n)
  show ?case
  proof (cases "n < 10")
    case True
    then show ?thesis by (subst string_of_nat.simps) (simp add: isDigit_digit_char)
  next
    case False
    then show ?thesis using 1 by (subst string_of_nat.simps) (simp add: isDigit_digit_char)
  qed
qed

lemma string_of_nat_value:
  "foldl (\<lambda>acc ch. 10 * acc + digitValue ch) 0 (string_of_nat n) = n"
proof (induction n rule: string_of_nat.induct)
  case (1 n)
  show ?case
  proof (cases "n < 10")
    case True
    then show ?thesis by (subst string_of_nat.simps) (simp add: digitValue_digit_char)
  next
    case False
    then show ?thesis using 1 by (subst string_of_nat.simps) (simp add: digitValue_digit_char)
  qed
qed

lemma isDigit_not_space: "isDigit ch \<Longrightarrow> \<not> isWhiteSpace ch"
  by (auto simp: isDigit_def isWhiteSpace_def)

lemma isDigit_not_sign: "isDigit ch \<Longrightarrow> ch \<noteq> CHR ''-'' \<and> ch \<noteq> CHR ''+''"
  by (auto simp: isDigit_def)

lemma parseInt_digits:
  assumes "ds \<noteq> []" and "\<forall>ch\<in>set ds. isDigit ch"
  shows "parseInt ds =
     (case toDouble (foldl (\<lambda>acc ch. 10 * acc + digitValue ch) 0 ds) of
        None \<Rightarrow> PosInfinity
      | Some n \<Rightarrow> Finite (int n))"
proof -
  have h: "isDigit (hd ds)" using assms by (cases ds) auto
  have d: "dropWhile isWhiteSpace ds = ds"
    using assms(1) h by (cases ds) (auto dest: isDigit_not_space)
  have t: "takeWhile isDigit ds = ds" using assms(2) by (simp add: takeWhile_eq_all_conv)
  show ?thesis
    using assms(1) isDigit_not_sign [OF h]
    by (simp add: parseInt_def Let_def d t split: option.splits)
qed

lemma toDouble_safe: "x < 2 ^ 53 \<Longrightarrow> toDouble x = Some x"
proof -
  assume a: "x < 2 ^ 53"
  have "(2::nat) ^ 53 < 2 ^ 1024" by simp
  with a have "x < 2 ^ 1024" by linarith
  with a show ?thesis by (simp add: toDouble_def round53_small Let_def)
qed

lemma parseInt_string_of_nat:
  "x < 2 ^ 53 \<Longrightarrow> parseInt (string_of_nat x) = Finite (int x)"
  by (simp add: parseInt_digits string_of_nat_nonempty string_of_nat_digits
      string_of_nat_value toDouble_safe)


lemma parseInt_empty: "parseInt [] = NaN"
  by (simp add: parseInt_def)

lemma bitlen_1e21: "bitlen 1000000000000000000000 = 70"
  by (rule bitlen_eq [of 69, simplified]) simp_all

lemma bitlen_2e21: "bitlen 2000000000000000000000 = 71"
  by (rule bitlen_eq [of 70, simplified]) simp_all

lemma round53_1e21: "round53 1000000000000000000000 = 1000000000000000000000"
  by (simp add: round53_def bitlen_1e21 Let_def)

lemma round53_2e21: "round53 2000000000000000000000 = 2000000000000000000000"
  by (simp add: round53_def bitlen_2e21 Let_def)

lemma length_1e21: "length (string_of_nat 1000000000000000000000) = 22"
  by (rule string_of_nat_length) simp_all

lemma string_of_nat_1: "string_of_nat 1 = ''1''" and string_of_nat_21: "string_of_nat 21 = ''21''"
  by code_simp+

text \<open>
  The digits that \<open>shortest\<close> finds read back as the number, whatever its size.
\<close>

lemma shortest_sound:
  assumes dbl: "round53 x = x" and pos: "0 < x" and d: "d = length (string_of_nat x)"
  shows "1 \<le> k \<Longrightarrow> shortest x d k = (s, n) \<Longrightarrow>
         0 < s \<and> length (string_of_nat s) \<le> n
         \<and> round53 (s * 10 ^ (n - length (string_of_nat s))) = x
         \<and> (n = d \<or> n = d + 1 \<and> round53 (10 ^ d) = x)"
proof (induction "d - k" arbitrary: k)
  case 0
  then have "shortest x d k = (x, d)" by (subst shortest.simps) simp
  with 0(3) have "s = x" "n = d" by simp_all
  then show ?case using pos d dbl by simp
next
  case (Suc m)
  then have False: "\<not> d \<le> k" by simp
  define p where "p = (10::nat) ^ (d - k)"
  define lo where "lo = x div p"
  define up where "up = (if lo + 1 = 10 ^ k then ((10::nat) ^ (k - 1), d + 1) else (lo + 1, d))"
  have len: "length (string_of_nat lo) = k"
    unfolding lo_def p_def using pos d Suc.prems(1) False by (intro div_digits) simp_all
  have "lo \<noteq> 0"
  proof
    assume "lo = 0"
    then have "length (string_of_nat lo) = 1"
      by (subst string_of_nat.simps) simp
    moreover have "x div p = 0 \<Longrightarrow> x < 10 ^ (d - k)"
      by (simp add: p_def div_eq_0_iff)
    moreover have "10 ^ (d - 1) \<le> x" using string_of_nat_bounds [OF pos] d by simp
    moreover have "(10::nat) ^ (d - k) \<le> 10 ^ (d - 1)"
      using Suc.prems(1) by (intro power_increasing) simp_all
    ultimately show False using \<open>lo = 0\<close> lo_def by simp
  qed
  then have lopos: "0 < lo" by simp
  from string_of_nat_bounds [OF lopos] len
  have lob: "10 ^ (k - 1) \<le> lo" "lo < 10 ^ k" by simp_all
  have unf: "shortest x d k =
      (if round53 (lo * p) = x \<and> round53 ((lo + 1) * p) = x
       then (if x - lo * p < (lo + 1) * p - x \<or> (x - lo * p = (lo + 1) * p - x \<and> even lo)
             then (lo, d) else up)
       else if round53 (lo * p) = x then (lo, d)
       else if round53 ((lo + 1) * p) = x then up
       else shortest x d (k + 1))"
    unfolding p_def lo_def up_def using False by (subst shortest.simps) (simp add: Let_def)
  have split: "(shortest x d k = (lo, d) \<and> round53 (lo * p) = x)
      \<or> (shortest x d k = up \<and> round53 ((lo + 1) * p) = x)
      \<or> shortest x d k = shortest x d (k + 1)"
    unfolding unf by simp
  from split show ?case
  proof (elim disjE conjE)
    assume a: "shortest x d k = (lo, d)" "round53 (lo * p) = x"
    then have "s = lo" "n = d" using Suc.prems(2) by simp_all
    then show ?thesis using lopos len False a(2) by (simp add: p_def)
  next
    assume a: "shortest x d k = up" "round53 ((lo + 1) * p) = x"
    show ?thesis
    proof (cases "lo + 1 = 10 ^ k")
      case True
      then have sn: "s = 10 ^ (k - 1)" "n = d + 1"
        using a(1) Suc.prems(2) by (simp_all add: up_def)
      have ls: "length (string_of_nat s) = k"
        unfolding sn using Suc.prems(1) by (intro string_of_nat_length) simp_all
      have "(10::nat) ^ (k - 1) * 10 ^ (d + 1 - k) = 10 ^ d"
        using False Suc.prems(1) by (simp add: power_add [symmetric])
      moreover have "(lo + 1) * p = 10 ^ d"
        unfolding True p_def using False by (simp add: power_add [symmetric])
      ultimately show ?thesis using a(2) ls sn False by simp
    next
      case nocarry: False
      then have sn: "s = lo + 1" "n = d"
        using a(1) Suc.prems(2) by (simp_all add: up_def)
      have ls: "length (string_of_nat s) = k"
        unfolding sn using Suc.prems(1) lob nocarry by (intro string_of_nat_length) simp_all
      show ?thesis using a(2) ls sn False by (simp add: p_def)
    qed
  next
    assume a: "shortest x d k = shortest x d (k + 1)"
    have "m = d - (k + 1)" using Suc.hyps(2) by simp
    from Suc.hyps(1) [OF this] a Suc.prems(2) show ?thesis by simp
  qed
qed

lemma pow10_21_less: "(10::nat) ^ 21 < 2 ^ 1024"
proof -
  have "(10::nat) ^ 21 < 16 ^ 21" by (intro power_strict_mono) simp_all
  also have "(16::nat) ^ 21 = 2 ^ 84" by simp
  also have "(2::nat) ^ 84 < 2 ^ 1024" by simp
  finally show ?thesis .
qed

lemma nat_toString_digits:
  assumes "round53 x = x" and "x < 10 ^ 21"
  shows "\<exists>y. nat_toString x = string_of_nat y \<and> toDouble y = Some x"
proof (cases "x = 0")
  case True
  have "nat_toString 0 = string_of_nat 0"
    by (simp add: nat_toString_def) (subst string_of_nat.simps, simp add: digit_char_0)
  moreover have "toDouble 0 = Some 0" by (simp add: toDouble_safe)
  ultimately show ?thesis using True by blast
next
  case False
  then have pos: "0 < x" by simp
  define d where "d = length (string_of_nat x)"
  obtain s n where sn: "shortest x d 1 = (s, n)" by (cases "shortest x d 1")
  from shortest_sound [OF assms(1) pos d_def _ sn]
  have r: "0 < s" "length (string_of_nat s) \<le> n"
    "round53 (s * 10 ^ (n - length (string_of_nat s))) = x"
    "n = d \<or> n = d + 1 \<and> round53 (10 ^ d) = x"
    by simp_all
  have "10 ^ (d - 1) \<le> x" using string_of_nat_bounds [OF pos] d_def by simp
  then have "(10::nat) ^ (d - 1) < 10 ^ 21" using assms(2) by linarith
  then have "d - 1 < 21" by (simp only: power_strict_increasing_iff)
  then have d21: "d \<le> 21" by simp
  have n21: "n \<le> 21"
  proof (rule ccontr)
    assume "\<not> n \<le> 21"
    with r(4) d21 have "d = 21" "round53 (10 ^ d) = x" by auto
    then have "x = 10 ^ 21" using round53_1e21 by simp
    then show False using assms(2) by simp
  qed
  let ?y = "s * 10 ^ (n - length (string_of_nat s))"
  have "nat_toString x = string_of_nat s @ replicate (n - length (string_of_nat s)) (CHR ''0'')"
    using False sn n21 by (simp add: nat_toString_def d_def [symmetric] Let_def)
  also have "\<dots> = string_of_nat ?y"
    using r(1) by (simp add: string_of_nat_shift)
  finally have "nat_toString x = string_of_nat ?y" .
  moreover have "x < 2 ^ 1024" using assms(2) pow10_21_less by linarith
  then have "toDouble ?y = Some x" using r(3) by (simp add: toDouble_def Let_def)
  ultimately show ?thesis by blast
qed

lemma parseInt_minus_digits:
  assumes "ds \<noteq> []" and "\<forall>ch\<in>set ds. isDigit ch"
  shows "parseInt (CHR ''-'' # ds) =
     (case toDouble (foldl (\<lambda>acc ch. 10 * acc + digitValue ch) 0 ds) of
        None \<Rightarrow> NegInfinity
      | Some n \<Rightarrow> Finite (- int n))"
proof -
  have t: "takeWhile isDigit ds = ds" using assms(2) by (simp add: takeWhile_eq_all_conv)
  have "\<not> isWhiteSpace CHR ''-''" by (simp add: isWhiteSpace_def)
  then show ?thesis
    using assms(1) by (simp add: parseInt_def Let_def t split: option.splits)
qed

text \<open>
  What is printed for a number below \<open>10 ^ 21\<close> in absolute value reads back as the
  number. An integer \<open>v\<close> is a number when it is a double, that is when \<open>round53\<close>
  leaves it as it is.
\<close>

lemma parseInt_numberToString:
  assumes "round53 (nat \<bar>v\<bar>) = nat \<bar>v\<bar>" and "\<bar>v\<bar> < 10 ^ 21"
  shows "parseInt (numberToString v) = Finite v"
proof -
  have "nat \<bar>v\<bar> < 10 ^ 21" using assms(2) by (simp add: nat_less_iff)
  from nat_toString_digits [OF assms(1) this] obtain y where
    y: "nat_toString (nat \<bar>v\<bar>) = string_of_nat y" "toDouble y = Some (nat \<bar>v\<bar>)"
    by blast
  show ?thesis
  proof (cases "v < 0")
    case True
    then have "numberToString v = CHR ''-'' # string_of_nat y"
      using y(1) by (simp add: numberToString_def abs_if)
    then show ?thesis
      using True y(2)
      by (simp add: parseInt_minus_digits string_of_nat_nonempty string_of_nat_digits
          string_of_nat_value)
  next
    case False
    then have "numberToString v = string_of_nat y"
      using y(1) by (simp add: numberToString_def abs_if)
    then show ?thesis
      using False y(2)
      by (simp add: parseInt_digits string_of_nat_nonempty string_of_nat_digits
          string_of_nat_value)
  qed
qed

lemma numberToString_nonempty:
  assumes "round53 (nat \<bar>v\<bar>) = nat \<bar>v\<bar>" and "\<bar>v\<bar> < 10 ^ 21"
  shows "numberToString v \<noteq> []"
  using parseInt_numberToString [OF assms] parseInt_empty by auto

lemma safe_is_double: "0 \<le> v \<Longrightarrow> v \<le> MAX_SAFE_INTEGER \<Longrightarrow>
    round53 (nat \<bar>v\<bar>) = nat \<bar>v\<bar> \<and> \<bar>v\<bar> < 10 ^ 21"
  by (simp add: MAX_SAFE_INTEGER_def round53_small nat_less_iff)

lemma shortest_1e21: "shortest 1000000000000000000000 22 1 = (1, 22)"
  by (subst shortest.simps) (simp add: Let_def round53_1e21 round53_2e21)

lemma nat_toString_1e21: "nat_toString 1000000000000000000000 = ''1e+21''"
  using shortest_1e21 string_of_nat_1 string_of_nat_21
  by (simp add: nat_toString_def length_1e21 Let_def)

lemma numberToString_1e21: "numberToString 1000000000000000000000 = ''1e+21''"
  by (simp add: numberToString_def nat_toString_1e21)

lemma parseInt_1e21: "parseInt ''1e+21'' = Finite 1"
  by (simp add: parseInt_def isWhiteSpace_def isDigit_def digitValue_def toDouble_def round53_def)

subsection \<open>The schema version marker\<close>

lemma lookupCollection_with_local:
  "lookupCollection (loki ex) ''local_storage'' = KeyValueCollection l \<Longrightarrow>
   lookupCollection (loki (with_local ex l')) ''local_storage'' = KeyValueCollection l'"
  by (auto simp: lookupCollection_def with_local_def split: option.splits if_splits)

lemma local_by_key_SomeD: "local_by_key l k = Some d \<Longrightarrow> d ''key'' = Some (Str k)"
  by (auto simp: local_by_key_def find_Some_iff)

lemma local_by_key_assign:
  assumes "local_by_key l k = Some d"
  shows "local_by_key (local_assign l k (\<lambda>d. d(''value'' \<mapsto> v))) k = Some (d(''value'' \<mapsto> v))"
  using assms local_by_key_SomeD [OF assms]
  unfolding local_by_key_def local_assign_def
  by (simp add: find_mutate_first)

lemma local_by_key_not_taken:
  "local_by_key l k = None \<Longrightarrow> \<not> key_taken l [''key'' \<mapsto> Str k, ''value'' \<mapsto> v]"
  by (auto simp: local_by_key_def key_taken_def find_None_iff list_ex_iff)

lemma find_snoc:
  "find P (xs @ [y]) = (case find P xs of None \<Rightarrow> if P y then Some y else None | Some x \<Rightarrow> Some x)"
  by (induction xs) simp_all

lemma local_insert_new:
  assumes "local_by_key l k = None"
  shows "\<exists>l'. local_insert l [''key'' \<mapsto> Str k, ''value'' \<mapsto> v] = Inr l'
           \<and> (\<exists>d. local_by_key l' k = Some d \<and> d ''value'' = Some v)"
  using assms local_by_key_not_taken [OF assms, of v]
  by (simp add: local_insert_def local_by_key_def find_snoc)

lemma findLocal_KeyValue:
  "lookupCollection (loki ex) ''local_storage'' = KeyValueCollection l \<Longrightarrow>
   findLocal ex key = Inr (local_by_key l key)"
  by (simp add: findLocal_def)

lemma setLocal_cases:
  assumes "setLocal ex key v = Inr ex'"
  shows "\<exists>l l'. lookupCollection (loki ex) ''local_storage'' = KeyValueCollection l
           \<and> ex' = with_local ex l'
           \<and> (\<exists>d. local_by_key l' key = Some d \<and> d ''value'' = Some (Str v))"
proof -
  from assms obtain l where
    l: "lookupCollection (loki ex) ''local_storage'' = KeyValueCollection l"
    by (cases "lookupCollection (loki ex) ''local_storage''")
      (auto simp: setLocal_def findLocal_def split: option.splits)
  show ?thesis
  proof (cases "local_by_key l key")
    case None
    from local_insert_new [OF None, of "Str v"] obtain l' d where
      i: "local_insert l [''key'' \<mapsto> Str key, ''value'' \<mapsto> Str v] = Inr l'"
        "local_by_key l' key = Some d" "d ''value'' = Some (Str v)"
      by blast
    have "ex' = with_local ex l'"
      using assms l None i(1) by (simp add: setLocal_def findLocal_def)
    with l i show ?thesis by blast
  next
    case (Some d)
    have "ex' = with_local ex (local_assign l key (\<lambda>d. d(''value'' \<mapsto> Str v)))"
      using assms l Some by (simp add: setLocal_def findLocal_def)
    with l local_by_key_assign [OF Some, of "Str v"] show ?thesis by fastforce
  qed
qed

lemma setLocal_getLocal:
  assumes "setLocal ex key v = Inr ex'"
  shows "getLocal ex' key = Inr (Some (Str v))"
proof -
  from setLocal_cases [OF assms] obtain l l' d where
    r: "lookupCollection (loki ex) ''local_storage'' = KeyValueCollection l"
      "ex' = with_local ex l'" "local_by_key l' key = Some d" "d ''value'' = Some (Str v)"
    by blast
  have "lookupCollection (loki ex') ''local_storage'' = KeyValueCollection l'"
    unfolding r(2) using r(1) by (rule lookupCollection_with_local)
  then show ?thesis using r(3,4) by (simp add: getLocal_def findLocal_def)
qed

lemma setLocal_total:
  assumes "lookupCollection (loki ex) ''local_storage'' = KeyValueCollection l"
  shows "\<exists>ex'. setLocal ex key v = Inr ex'"
proof (cases "local_by_key l key")
  case None
  from local_insert_new [OF None, of "Str v"] show ?thesis
    using assms None by (auto simp: setLocal_def findLocal_def)
next
  case (Some d)
  then show ?thesis using assms by (simp add: setLocal_def findLocal_def)
qed

lemma setLocal_frame:
  assumes "setLocal ex key v = Inr ex'"
  shows "schema ex' = schema ex \<and> migrations ex' = migrations ex
       \<and> cachedRecords ex' = cachedRecords ex \<and> collections (loki ex') = collections (loki ex)"
  using setLocal_cases [OF assms] by (auto simp: with_local_def)

lemma setLocal_fail: "setLocal ex key v = Inl (e, ex') \<Longrightarrow> ex' = ex"
  by (auto simp: setLocal_def findLocal_def split: option.splits AnyCollection.splits sum.splits)

lemma get_databaseVersion_set:
  assumes "set_databaseVersion ex v = Inr ex'"
    and "round53 (nat \<bar>v\<bar>) = nat \<bar>v\<bar>" and "\<bar>v\<bar> < 10 ^ 21"
  shows "get_databaseVersion ex' = Inr (Finite v)"
proof -
  have g: "getLocal ex' SCHEMA_VERSION_KEY = Inr (Some (Str (numberToString v)))"
    using assms(1) by (simp add: set_databaseVersion_def setLocal_getLocal)
  show ?thesis
    using numberToString_nonempty [OF assms(2,3)]
    by (simp add: get_databaseVersion_def g falsy_def toString_val_def
        parseInt_numberToString [OF assms(2,3)])
qed





subsection \<open>Adding columns\<close>

lemma raw_id_add_columns:
  "raw_id (foldl (\<lambda>r column. setRawSanitized sv r (name column) Null column) rcd cols) = raw_id rcd"
  by (induction cols arbitrary: rcd) (simp_all add: setRawSanitized_def)

lemma props_add_columns_other:
  "f \<notin> name ` set cols \<Longrightarrow>
   props (foldl (\<lambda>r column. setRawSanitized sv r (name column) Null column) rcd cols) f = props rcd f"
  by (induction cols arbitrary: rcd) (simp_all add: setRawSanitized_def)

lemma props_add_columns_new:
  "distinct (map name cols) \<Longrightarrow> col \<in> set cols \<Longrightarrow>
   props (foldl (\<lambda>r column. setRawSanitized sv r (name column) Null column) rcd cols) (name col) =
     Some (sv Null col)"
proof (induction cols arbitrary: rcd)
  case Nil
  then show ?case by simp
next
  case (Cons c cs)
  show ?case
  proof (cases "col = c")
    case True
    then have "name col \<notin> name ` set cs" using Cons.prems by simp
    then show ?thesis using True
      by (simp add: props_add_columns_other) (simp add: setRawSanitized_def)
  next
    case False
    then show ?thesis using Cons by simp
  qed
qed

lemma ensureIndex_fold:
  "data (foldl (\<lambda>c column. if isIndexed column then coll_ensureIndex c (name column) else c) c0 cols) = data c0
   \<and> maxId (foldl (\<lambda>c column. if isIndexed column then coll_ensureIndex c (name column) else c) c0 cols) = maxId c0
   \<and> set (binaryIndices (foldl (\<lambda>c column. if isIndexed column then coll_ensureIndex c (name column) else c) c0 cols)) =
       set (binaryIndices c0) \<union> name ` {col \<in> set cols. isIndexed col}"
  by (induction cols arbitrary: c0) (auto simp: coll_ensureIndex_def)

text \<open>
  Claim C8. A step that adds the columns \<open>cols\<close>, of distinct names and none named
  \<^verbatim>\<open>id\<close>, to a table that has a collection rewrites every record of the collection, in
  place and in order: the id of the record is kept, every new column holds its sanitized
  default, the sanitized \<^verbatim>\<open>null\<close>, and every property that is not a new column holds
  what it held. Afterwards the indexed fields of the collection are those it had and the
  new columns whose \<open>isIndexed\<close> is true; the cache and the other collections are as
  before.
\<close>

theorem addColumns_frame:
  assumes "getCollection (loki ex) table = Some c"
    and "distinct (map name cols)"
    and "''id'' \<notin> name ` set cols"
  shows "\<exists>c'. executeAddColumnsMigration sv ex table cols = Inr (with_collection ex table c')
     \<and> length (data c') = length (data c)
     \<and> (\<forall>i. i < length (data c) \<longrightarrow>
           raw_id (data c' ! i) = raw_id (data c ! i)
         \<and> (\<forall>col\<in>set cols. props (data c' ! i) (name col) = Some (sv Null col))
         \<and> (\<forall>f. f \<notin> name ` set cols \<longrightarrow> props (data c' ! i) f = props (data c ! i) f))
     \<and> set (binaryIndices c') = set (binaryIndices c) \<union> name ` {col \<in> set cols. isIndexed col}
     \<and> maxId c' = maxId c"
proof -
  let ?f = "\<lambda>rcd. foldl (\<lambda>r column. setRawSanitized sv r (name column) Null column) rcd cols"
  let ?u = "coll_findAndUpdate c ?f"
  let ?c = "foldl (\<lambda>c column. if isIndexed column then coll_ensureIndex c (name column) else c) ?u cols"
  have run: "executeAddColumnsMigration sv ex table cols = Inr (with_collection ex table ?c)"
    using assms(1) by (simp add: executeAddColumnsMigration_def)
  have dat: "data ?c = map ?f (data c)" and mx: "maxId ?c = maxId c"
    and ix: "set (binaryIndices ?c) = set (binaryIndices c) \<union> name ` {col \<in> set cols. isIndexed col}"
    using ensureIndex_fold [of ?u cols] by (simp_all add: coll_findAndUpdate_def)
  have recs: "\<forall>i. i < length (data c) \<longrightarrow>
           raw_id (data ?c ! i) = raw_id (data c ! i)
         \<and> (\<forall>col\<in>set cols. props (data ?c ! i) (name col) = Some (sv Null col))
         \<and> (\<forall>f. f \<notin> name ` set cols \<longrightarrow> props (data ?c ! i) f = props (data c ! i) f)"
    unfolding dat using assms(2)
    by (simp add: raw_id_add_columns props_add_columns_other props_add_columns_new)
  have len: "length (data ?c) = length (data c)" unfolding dat by simp
  show ?thesis
    using run len recs ix mx by blast
qed

theorem addColumns_frame_witness:
  "getCollection (loki sample_executor) ''tasks'' = Some sample_collection
   \<and> distinct (map name sample_columns)
   \<and> ''id'' \<notin> name ` set sample_columns
   \<and> (\<exists>c'. executeAddColumnsMigration sample_value_sanitizer sample_executor ''tasks''
               sample_columns = Inr (with_collection sample_executor ''tasks'' c')
        \<and> length (data c') = 1
        \<and> raw_id (data c' ! 0) = ''a''
        \<and> props (data c' ! 0) ''priority'' = Some (Str [])
        \<and> props (data c' ! 0) ''note'' = Some (Str [])
        \<and> props (data c' ! 0) ''title'' = Some (Str ''tea'')
        \<and> set (binaryIndices c') = {''_status'', ''priority''})"
proof -
  have a: "distinct (map name sample_columns)" "''id'' \<notin> name ` set sample_columns"
    by (simp_all add: sample_defs)
  have b: "length (data sample_collection) = 1" "raw_id (data sample_collection ! 0) = ''a''"
    "props (data sample_collection ! 0) ''title'' = Some (Str ''tea'')"
    "set (binaryIndices sample_collection) = {''_status''}"
    by (simp_all add: sample_defs)
  have c: "name ` set sample_columns = {''priority'', ''note''}"
    "name ` {col \<in> set sample_columns. isIndexed col} = {''priority''}"
    unfolding set_filter [symmetric] by (simp_all add: sample_defs del: set_filter)
  have d: "\<forall>col\<in>set sample_columns. sample_value_sanitizer Null col = Str []"
    by (simp add: sample_defs)
  from addColumns_frame [OF sample_executor_facts(2) a, of sample_value_sanitizer]
  obtain c' where r:
    "executeAddColumnsMigration sample_value_sanitizer sample_executor ''tasks''
               sample_columns = Inr (with_collection sample_executor ''tasks'' c')"
    "length (data c') = length (data sample_collection)"
    "\<forall>i. i < length (data sample_collection) \<longrightarrow>
           raw_id (data c' ! i) = raw_id (data sample_collection ! i)
         \<and> (\<forall>col\<in>set sample_columns. props (data c' ! i) (name col) = Some (sample_value_sanitizer Null col))
         \<and> (\<forall>f. f \<notin> name ` set sample_columns \<longrightarrow> props (data c' ! i) f = props (data sample_collection ! i) f)"
    "set (binaryIndices c') = set (binaryIndices sample_collection) \<union> name ` {col \<in> set sample_columns. isIndexed col}"
    by blast
  from r(3) b(1) have r0:
    "raw_id (data c' ! 0) = raw_id (data sample_collection ! 0)"
    "\<forall>col\<in>set sample_columns. props (data c' ! 0) (name col) = Some (sample_value_sanitizer Null col)"
    "\<forall>f. f \<notin> name ` set sample_columns \<longrightarrow> props (data c' ! 0) f = props (data sample_collection ! 0) f"
    by simp_all
  have p: "props (data c' ! 0) ''priority'' = Some (Str [])" "props (data c' ! 0) ''note'' = Some (Str [])"
    using r0(2) d by (simp_all add: sample_columns_def)
  have t: "props (data c' ! 0) ''title'' = Some (Str ''tea'')"
    using r0(3) c(1) b(3) by simp
  have i: "set (binaryIndices c') = {''_status'', ''priority''}"
    using r(4) b(4) c(2) by auto
  show ?thesis
    using sample_executor_facts(2) a r(1,2) r0(1) b(1,2) p t i by auto
qed

subsection \<open>Migrations and the version marker\<close>

lemma get_databaseVersion_cong:
  assumes "lookupCollection (loki ex') ''local_storage'' =
      lookupCollection (loki ex) ''local_storage''"
    and "get_databaseVersion ex = Inr n"
  shows "get_databaseVersion ex' = Inr n"
proof (cases "lookupCollection (loki ex) ''local_storage''")
  case NoCollection
  then show ?thesis
    using assms by (simp add: get_databaseVersion_def getLocal_def findLocal_def)
next
  case (TableCollection c)
  then show ?thesis
    using assms(2) by (simp add: get_databaseVersion_def getLocal_def findLocal_def)
next
  case (KeyValueCollection l)
  then show ?thesis
    using assms by (simp add: get_databaseVersion_def getLocal_def findLocal_def)
qed

lemma executor_addCollection_frame:
  "local_storage (loki (executor_addCollection ex nm cols)) = local_storage (loki ex)
   \<and> schema (executor_addCollection ex nm cols) = schema ex
   \<and> migrations (executor_addCollection ex nm cols) = migrations ex
   \<and> cachedRecords (executor_addCollection ex nm cols) = cachedRecords ex"
  by (simp add: executor_addCollection_def addCollection_def setCollection_def Let_def
      split: AnyCollection.splits)

lemma executor_addCollection_local:
  "nm \<noteq> ''local_storage'' \<Longrightarrow>
   lookupCollection (loki (executor_addCollection ex nm cols)) ''local_storage'' =
     lookupCollection (loki ex) ''local_storage''"
  by (auto simp: executor_addCollection_def addCollection_def setCollection_def Let_def
      lookupCollection_def split: AnyCollection.splits option.splits)

lemma with_collection_frame:
  "local_storage (loki (with_collection ex t c)) = local_storage (loki ex)
   \<and> migrations (with_collection ex t c) = migrations ex"
  by (simp add: with_collection_def setCollection_def)

lemma with_collection_local:
  "t \<noteq> ''local_storage'' \<Longrightarrow>
   lookupCollection (loki (with_collection ex t c)) ''local_storage'' =
     lookupCollection (loki ex) ''local_storage''"
  by (simp add: with_collection_def setCollection_def lookupCollection_def split: option.splits)

lemma schema_with_local: "schema (with_local ex l) = schema ex"
  by (simp add: with_local_def)

lemma executeAddColumnsMigration_schema:
  "executeAddColumnsMigration sv ex table cols = Inr ex' \<Longrightarrow> schema ex' = schema ex"
  by (auto simp: executeAddColumnsMigration_def Let_def schema_with_collection
      schema_with_local split: option.splits AnyCollection.splits)

lemma executeAddColumnsMigration_local:
  assumes "executeAddColumnsMigration sv ex table cols = Inr ex'"
    and "table \<noteq> ''local_storage''"
  shows "lookupCollection (loki ex') ''local_storage'' =
      lookupCollection (loki ex) ''local_storage''"
proof (cases "getCollection (loki ex) table")
  case None
  then have "lookupCollection (loki ex) table = NoCollection"
    using assms(2) by (simp add: lookupCollection_def getCollection_def)
  then show ?thesis using assms(1) None by (simp add: executeAddColumnsMigration_def)
next
  case (Some c)
  then obtain c' where "ex' = with_collection ex table c'"
    using assms(1) by (auto simp: executeAddColumnsMigration_def Let_def)
  then show ?thesis using assms(2) by (simp add: with_collection_local)
qed

lemma executeAddColumnsMigration_fail:
  "executeAddColumnsMigration sv ex table cols = Inl (e, ex') \<Longrightarrow> ex' = ex"
  by (auto simp: executeAddColumnsMigration_def Let_def
      split: option.splits AnyCollection.splits)

lemma migrate_step_schema:
  "migrate_step sv ex step = Inr ex' \<Longrightarrow> schema ex' = schema ex"
  by (auto simp: migrate_step_def executeCreateTableMigration_def executor_addCollection_frame
      dest: executeAddColumnsMigration_schema split: if_splits)

lemma migrate_step_local:
  "migrate_step sv ex step = Inr ex' \<Longrightarrow> step_table step \<noteq> ''local_storage'' \<Longrightarrow>
   lookupCollection (loki ex') ''local_storage'' = lookupCollection (loki ex) ''local_storage''"
  by (auto simp: migrate_step_def executeCreateTableMigration_def executor_addCollection_local
      dest: executeAddColumnsMigration_local split: if_splits)

lemma migrate_step_fail:
  "migrate_step sv ex step = Inl (e, ex') \<Longrightarrow> ex' = ex"
  by (auto simp: migrate_step_def dest: executeAddColumnsMigration_fail split: if_splits)

lemma migrate_steps_schema:
  "migrate_steps sv ex steps = Inr ex' \<or> migrate_steps sv ex steps = Inl (e, ex') \<Longrightarrow>
   schema ex' = schema ex"
proof (induction steps arbitrary: ex)
  case Nil
  then show ?case by auto
next
  case (Cons step steps)
  show ?case
  proof (cases "migrate_step sv ex step")
    case (Inl a)
    then show ?thesis using Cons.prems by (cases a) (auto dest: migrate_step_fail)
  next
    case (Inr ex1)
    then have "migrate_steps sv ex1 steps = Inr ex' \<or> migrate_steps sv ex1 steps = Inl (e, ex')"
      using Cons.prems by simp
    from Cons.IH [OF this] migrate_step_schema [OF Inr] show ?thesis by simp
  qed
qed

lemma migrate_steps_local:
  "migrate_steps sv ex steps = Inr ex' \<or> migrate_steps sv ex steps = Inl (e, ex') \<Longrightarrow>
   \<forall>s\<in>set steps. step_table s \<noteq> ''local_storage'' \<Longrightarrow>
   lookupCollection (loki ex') ''local_storage'' = lookupCollection (loki ex) ''local_storage''"
proof (induction steps arbitrary: ex)
  case Nil
  then show ?case by auto
next
  case (Cons step steps)
  show ?case
  proof (cases "migrate_step sv ex step")
    case (Inl a)
    then show ?thesis using Cons.prems(1) by (cases a) (auto dest: migrate_step_fail)
  next
    case (Inr ex1)
    then have "migrate_steps sv ex1 steps = Inr ex' \<or> migrate_steps sv ex1 steps = Inl (e, ex')"
      using Cons.prems(1) by simp
    moreover have "\<forall>s\<in>set steps. step_table s \<noteq> ''local_storage''"
      using Cons.prems(2) by simp
    ultimately have "lookupCollection (loki ex') ''local_storage'' =
        lookupCollection (loki ex1) ''local_storage''"
      by (rule Cons.IH)
    moreover have "step_table step \<noteq> ''local_storage''"
      using Cons.prems(2) by simp
    with Inr have "lookupCollection (loki ex1) ''local_storage'' =
        lookupCollection (loki ex) ''local_storage''"
      by (rule migrate_step_local)
    ultimately show ?thesis by simp
  qed
qed

lemma migrate_steps_append:
  "migrate_steps sv ex (xs @ ys) =
     (case migrate_steps sv ex xs of Inl e \<Rightarrow> Inl e | Inr ex1 \<Rightarrow> migrate_steps sv ex1 ys)"
  by (induction xs arbitrary: ex) (auto split: sum.splits)

lemma migrate_step_unsupported:
  "step_type step \<noteq> ''create_table'' \<Longrightarrow> step_type step \<noteq> ''add_columns'' \<Longrightarrow>
   migrate_step sv ex step = Inl (UnsupportedMigrationStep (step_type step), ex)"
  by (simp add: migrate_step_def)

lemma migrate_steps_unsupported:
  assumes "step_type step \<noteq> ''create_table''" and "step_type step \<noteq> ''add_columns''"
  shows "migrate_steps sv ex (pre @ step # post) =
     (case migrate_steps sv ex pre of
        Inl e \<Rightarrow> Inl e
      | Inr ex1 \<Rightarrow> Inl (UnsupportedMigrationStep (step_type step), ex1))"
  by (simp add: migrate_steps_append migrate_step_unsupported [OF assms] split: sum.splits)

lemma set_databaseVersion_fail:
  "set_databaseVersion ex v = Inl (e, ex') \<Longrightarrow> ex' = ex"
  unfolding set_databaseVersion_def by (rule setLocal_fail)

lemma migrate_fail_local:
  assumes "migrate sv ex steps = Inl (e, ex')"
    and "\<forall>s\<in>set steps. step_table s \<noteq> ''local_storage''"
  shows "lookupCollection (loki ex') ''local_storage'' =
      lookupCollection (loki ex) ''local_storage''"
proof (cases "migrate_steps sv ex steps")
  case (Inl a)
  then have "migrate_steps sv ex steps = Inl (e, ex')"
    using assms(1) by (simp add: migrate_def)
  then show ?thesis using migrate_steps_local [of sv ex steps ex' e] assms(2) by simp
next
  case (Inr ex1)
  then have "set_databaseVersion ex1 (version (schema ex1)) = Inl (e, ex')"
    using assms(1) by (simp add: migrate_def)
  then have "ex' = ex1" by (rule set_databaseVersion_fail)
  then show ?thesis using migrate_steps_local [of sv ex steps ex1 e] Inr assms(2) by simp
qed

lemma migrate_success:
  assumes "migrate sv ex steps = Inr ex2"
  shows "\<exists>ex1. migrate_steps sv ex steps = Inr ex1 \<and> schema ex1 = schema ex
           \<and> set_databaseVersion ex1 (version (schema ex)) = Inr ex2"
proof (cases "migrate_steps sv ex steps")
  case (Inl a)
  then show ?thesis using assms by (simp add: migrate_def)
next
  case (Inr ex1)
  from migrate_steps_schema [of sv ex steps ex1] Inr
  have "schema ex1 = schema ex" by simp
  then show ?thesis using assms Inr by (simp add: migrate_def)
qed

text \<open>
  Claim C2, as the code has it. A migration whose steps contain a step of a type other
  than \<^verbatim>\<open>create_table\<close> and \<^verbatim>\<open>add_columns\<close> ends in an error; it stops at that
  step, with the error of an unsupported step unless an earlier step failed, and runs no
  later step. When no step names the collection \<^verbatim>\<open>local_storage\<close>, that collection
  is in the executor the failed migration leaves what it was before, and so is the version
  read from it. A migration that returns has run every step with success, the version
  still being the old one after the last step when no step names \<^verbatim>\<open>local_storage\<close>,
  and only then set the marker, to the version of the schema, which is the version read
  afterwards when it is a number below \<open>10 ^ 21\<close>. \<open>migrateIfNeeded\<close> passes the result
  of the migration on unchanged.
\<close>

theorem migrate_failure_keeps_version:
  "(step \<in> set steps \<and> step_type step \<noteq> ''create_table'' \<and> step_type step \<noteq> ''add_columns''
      \<longrightarrow> (\<exists>e ex'. migrate sv ex steps = Inl (e, ex')
             \<and> ((\<forall>s\<in>set steps. step_table s \<noteq> ''local_storage'') \<longrightarrow>
                  lookupCollection (loki ex') ''local_storage'' =
                    lookupCollection (loki ex) ''local_storage''
                  \<and> (get_databaseVersion ex = Inr n \<longrightarrow> get_databaseVersion ex' = Inr n))))
   \<and> (step_type step \<noteq> ''create_table'' \<and> step_type step \<noteq> ''add_columns''
      \<longrightarrow> migrate sv ex (pre @ step # post) =
            (case migrate_steps sv ex pre of
               Inl e \<Rightarrow> Inl e
             | Inr ex1 \<Rightarrow> Inl (UnsupportedMigrationStep (step_type step), ex1)))
   \<and> (migrate sv ex steps = Inr ex2
      \<longrightarrow> (\<exists>ex1. migrate_steps sv ex steps = Inr ex1
             \<and> ((\<forall>s\<in>set steps. step_table s \<noteq> ''local_storage'')
                  \<and> get_databaseVersion ex = Inr n \<longrightarrow> get_databaseVersion ex1 = Inr n)
             \<and> set_databaseVersion ex1 (version (schema ex)) = Inr ex2)
          \<and> (round53 (nat \<bar>version (schema ex)\<bar>) = nat \<bar>version (schema ex)\<bar>
               \<and> \<bar>version (schema ex)\<bar> < 10 ^ 21 \<longrightarrow>
             get_databaseVersion ex2 = Inr (Finite (version (schema ex)))))
   \<and> (get_databaseVersion ex = Inr (Finite d) \<and> 0 < d \<and> d < version (schema ex)
        \<and> getMigrationSteps ex d = Some steps
      \<longrightarrow> migrateIfNeeded sv ex = migrate sv ex steps)"
proof (intro conjI impI)
  assume a: "step \<in> set steps \<and> step_type step \<noteq> ''create_table''
    \<and> step_type step \<noteq> ''add_columns''"
  then obtain pre post where sp: "steps = pre @ step # post"
    by (auto dest: split_list)
  have "migrate_steps sv ex steps =
     (case migrate_steps sv ex pre of
        Inl e \<Rightarrow> Inl e
      | Inr ex1 \<Rightarrow> Inl (UnsupportedMigrationStep (step_type step), ex1))"
    unfolding sp using a by (intro migrate_steps_unsupported) simp_all
  then obtain e ex' where f: "migrate_steps sv ex steps = Inl (e, ex')"
    by (cases "migrate_steps sv ex pre") auto
  then have m: "migrate sv ex steps = Inl (e, ex')" by (simp add: migrate_def)
  have "(\<forall>s\<in>set steps. step_table s \<noteq> ''local_storage'') \<longrightarrow>
      lookupCollection (loki ex') ''local_storage'' = lookupCollection (loki ex) ''local_storage''
      \<and> (get_databaseVersion ex = Inr n \<longrightarrow> get_databaseVersion ex' = Inr n)"
    using migrate_fail_local [OF m] get_databaseVersion_cong [of ex' ex n] by blast
  with m show "\<exists>e ex'. migrate sv ex steps = Inl (e, ex')
             \<and> ((\<forall>s\<in>set steps. step_table s \<noteq> ''local_storage'') \<longrightarrow>
                  lookupCollection (loki ex') ''local_storage'' =
                    lookupCollection (loki ex) ''local_storage''
                  \<and> (get_databaseVersion ex = Inr n \<longrightarrow> get_databaseVersion ex' = Inr n))"
    by blast
next
  assume a: "step_type step \<noteq> ''create_table'' \<and> step_type step \<noteq> ''add_columns''"
  then have "migrate_steps sv ex (pre @ step # post) =
     (case migrate_steps sv ex pre of
        Inl e \<Rightarrow> Inl e
      | Inr ex1 \<Rightarrow> Inl (UnsupportedMigrationStep (step_type step), ex1))"
    by (intro migrate_steps_unsupported) simp_all
  then show "migrate sv ex (pre @ step # post) =
            (case migrate_steps sv ex pre of
               Inl e \<Rightarrow> Inl e
             | Inr ex1 \<Rightarrow> Inl (UnsupportedMigrationStep (step_type step), ex1))"
    by (simp add: migrate_def split: sum.splits)
next
  assume s: "migrate sv ex steps = Inr ex2"
  from migrate_success [OF s] obtain ex1 where
    r: "migrate_steps sv ex steps = Inr ex1" "schema ex1 = schema ex"
      "set_databaseVersion ex1 (version (schema ex)) = Inr ex2"
    by blast
  have "(\<forall>s\<in>set steps. step_table s \<noteq> ''local_storage'') \<and> get_databaseVersion ex = Inr n
      \<longrightarrow> get_databaseVersion ex1 = Inr n"
    using migrate_steps_local [of sv ex steps ex1] r(1) get_databaseVersion_cong [of ex1 ex n]
    by blast
  with r show "\<exists>ex1. migrate_steps sv ex steps = Inr ex1
             \<and> ((\<forall>s\<in>set steps. step_table s \<noteq> ''local_storage'')
                  \<and> get_databaseVersion ex = Inr n \<longrightarrow> get_databaseVersion ex1 = Inr n)
             \<and> set_databaseVersion ex1 (version (schema ex)) = Inr ex2"
    by blast
  assume "round53 (nat \<bar>version (schema ex)\<bar>) = nat \<bar>version (schema ex)\<bar>
      \<and> \<bar>version (schema ex)\<bar> < 10 ^ 21"
  then show "get_databaseVersion ex2 = Inr (Finite (version (schema ex)))"
    using r(3) by (blast intro: get_databaseVersion_set)
next
  assume "get_databaseVersion ex = Inr (Finite d) \<and> 0 < d \<and> d < version (schema ex)
        \<and> getMigrationSteps ex d = Some steps"
  then show "migrateIfNeeded sv ex = migrate sv ex steps"
    by (simp add: migrateIfNeeded_def Let_def)
qed

lemma sample_old_version: "get_databaseVersion sample_old_executor = Inr (Finite 1)"
  by (simp add: get_databaseVersion_def getLocal_def findLocal_def lookupCollection_def
      local_by_key_def SCHEMA_VERSION_KEY_def falsy_def toString_val_def parseInt_def
      isWhiteSpace_def isDigit_def digitValue_def toDouble_def round53_def sample_defs)

text \<open>
  The claim as the specification states it fails. \<^verbatim>\<open>_findLocal\<close> reads the collection
  that \<^verbatim>\<open>getCollection('local_storage')\<close> returns, and a migration step reaches the
  same collection by that name: the step \<^verbatim>\<open>add_columns\<close> for the column \<^verbatim>\<open>value\<close>
  of \<^verbatim>\<open>local_storage\<close> sets the value of the record of the schema version to the
  sanitized \<^verbatim>\<open>null\<close>, the unsupported step that follows aborts the migration, and the
  version read afterwards is \<open>0\<close> where it was \<open>1\<close> before.
\<close>

theorem migrate_failure_keeps_version_counterexample:
  "get_databaseVersion sample_old_executor = Inr (Finite 1)
   \<and> migrate sample_value_sanitizer sample_old_executor sample_marker_steps =
       Inl (UnsupportedMigrationStep ''rename_column'', sample_wiped_executor)
   \<and> getLocal sample_wiped_executor SCHEMA_VERSION_KEY = Inr (Some (Str []))
   \<and> get_databaseVersion sample_wiped_executor = Inr (Finite 0)"
proof -
  have a: "executeAddColumnsMigration sample_value_sanitizer sample_old_executor
      ''local_storage'' [\<lparr>name = ''value'', isIndexed = False, isSearchable = False\<rparr>] =
      Inr sample_wiped_executor"
    by (simp add: executeAddColumnsMigration_def getCollection_def lookupCollection_def
        local_findAndUpdate_def document_setRawSanitized_def with_local_def Let_def
        fun_upd_twist sample_defs)
  have b: "migrate sample_value_sanitizer sample_old_executor sample_marker_steps =
       Inl (UnsupportedMigrationStep ''rename_column'', sample_wiped_executor)"
    by (simp add: migrate_def migrate_step_def a sample_marker_steps_def)
  have c: "getLocal sample_wiped_executor SCHEMA_VERSION_KEY = Inr (Some (Str []))"
    by (simp add: getLocal_def findLocal_def lookupCollection_def local_by_key_def
        SCHEMA_VERSION_KEY_def sample_defs)
  have d: "get_databaseVersion sample_wiped_executor = Inr (Finite 0)"
    by (simp add: get_databaseVersion_def c falsy_def toString_val_def parseInt_empty)
  show ?thesis using sample_old_version b c d by simp
qed

lemma sample_steps_run:
  "\<exists>ex1. migrate_steps sample_value_sanitizer sample_old_executor sample_good_steps = Inr ex1"
  "\<exists>ex1. migrate_steps sample_value_sanitizer sample_old_executor
            [MigrationStep ''create_table'' ''comments'' sample_columns] = Inr ex1"
  by (simp_all add: migrate_step_def executeCreateTableMigration_def
      executeAddColumnsMigration_def executor_addCollection_def addCollection_def
      lookupCollection_def setCollection_def getCollection_def Let_def sample_good_steps_def
      sample_old_executor_def sample_loaded_old_def sample_executor_def)

lemma sample_steps_tables:
  "\<forall>s\<in>set sample_bad_steps. step_table s \<noteq> ''local_storage''"
  "\<forall>s\<in>set sample_good_steps. step_table s \<noteq> ''local_storage''"
  by (simp_all add: sample_bad_steps_def sample_good_steps_def)

theorem migrate_failure_keeps_version_witness:
  "MigrationStep ''rename_column'' ''tasks'' [] \<in> set sample_bad_steps
   \<and> step_table (MigrationStep ''create_table'' ''comments'' sample_columns) \<noteq> ''local_storage''
   \<and> step_table (MigrationStep ''rename_column'' ''tasks'' []) \<noteq> ''local_storage''
   \<and> step_table (MigrationStep ''add_columns'' ''tasks'' sample_columns) \<noteq> ''local_storage''
   \<and> get_databaseVersion sample_old_executor = Inr (Finite 1)
   \<and> version (schema sample_old_executor) = 2
   \<and> round53 (nat \<bar>2\<bar>) = nat \<bar>2\<bar> \<and> \<bar>2::int\<bar> < 10 ^ 21
   \<and> (\<exists>ex'. migrate sample_value_sanitizer sample_old_executor sample_bad_steps =
               Inl (UnsupportedMigrationStep ''rename_column'', ex')
         \<and> get_databaseVersion ex' = Inr (Finite 1))
   \<and> (\<exists>ex1 ex2. migrate_steps sample_value_sanitizer sample_old_executor sample_good_steps = Inr ex1
         \<and> get_databaseVersion ex1 = Inr (Finite 1)
         \<and> migrate sample_value_sanitizer sample_old_executor sample_good_steps = Inr ex2
         \<and> get_databaseVersion ex2 = Inr (Finite 2))
   \<and> get_databaseVersion (openDatabase sample_migrating_executor sample_loaded_old) =
       Inr (Finite 1)
   \<and> version (schema (openDatabase sample_migrating_executor sample_loaded_old)) = 2
   \<and> getMigrationSteps (openDatabase sample_migrating_executor sample_loaded_old) 1 =
       Some sample_good_steps
   \<and> migrateIfNeeded sample_value_sanitizer
         (openDatabase sample_migrating_executor sample_loaded_old) =
       migrate sample_value_sanitizer
         (openDatabase sample_migrating_executor sample_loaded_old) sample_good_steps"
proof -
  let ?bad = "MigrationStep ''rename_column'' ''tasks'' []"
  let ?pre = "[MigrationStep ''create_table'' ''comments'' sample_columns]"
  let ?post = "[MigrationStep ''add_columns'' ''tasks'' sample_columns]"
  have mem: "?bad \<in> set sample_bad_steps" and sp: "sample_bad_steps = ?pre @ ?bad # ?post"
    by (simp_all add: sample_bad_steps_def)
  have ty: "step_type ?bad \<noteq> ''create_table''" "step_type ?bad \<noteq> ''add_columns''"
    "step_type ?bad = ''rename_column''"
    by simp_all
  have v: "version (schema sample_old_executor) = 2"
    by (simp add: sample_defs)
  have dbl: "round53 (nat \<bar>2\<bar>) = nat \<bar>2\<bar> \<and> \<bar>2::int\<bar> < 10 ^ 21"
    by (simp add: round53_def)
  have ls: "lookupCollection (loki sample_old_executor) ''local_storage'' =
      KeyValueCollection (sample_marker ''1'')"
    by (simp add: lookupCollection_def sample_defs)
  from sample_steps_run obtain ex1 exp where
    r: "migrate_steps sample_value_sanitizer sample_old_executor sample_good_steps = Inr ex1"
      "migrate_steps sample_value_sanitizer sample_old_executor ?pre = Inr exp"
    by blast
  from migrate_steps_local [of sample_value_sanitizer sample_old_executor sample_good_steps ex1]
    migrate_steps_schema [of sample_value_sanitizer sample_old_executor sample_good_steps ex1]
    r(1) sample_steps_tables(2) ls
  have "lookupCollection (loki ex1) ''local_storage'' = KeyValueCollection (sample_marker ''1'')"
    "schema ex1 = schema sample_old_executor"
    by simp_all
  then obtain ex2 where
    m: "migrate sample_value_sanitizer sample_old_executor sample_good_steps = Inr ex2"
    using r(1) setLocal_total [of ex1 _ SCHEMA_VERSION_KEY]
    by (auto simp: migrate_def set_databaseVersion_def)
  note t = migrate_failure_keeps_version [where sv = sample_value_sanitizer
      and ex = sample_old_executor and n = "Finite 1"]
  note tb = t [where step = ?bad and steps = sample_bad_steps and pre = ?pre and post = ?post]
  have t1: "migrate sample_value_sanitizer sample_old_executor (?pre @ ?bad # ?post) =
      (case migrate_steps sample_value_sanitizer sample_old_executor ?pre of
         Inl e \<Rightarrow> Inl e
       | Inr ex1 \<Rightarrow> Inl (UnsupportedMigrationStep (step_type ?bad), ex1))"
    using tb ty(1,2) by blast
  have bad: "migrate sample_value_sanitizer sample_old_executor sample_bad_steps =
      Inl (UnsupportedMigrationStep ''rename_column'', exp)"
    unfolding sp t1 r(2) by simp
  have "\<exists>e ex'. migrate sample_value_sanitizer sample_old_executor sample_bad_steps = Inl (e, ex')
       \<and> get_databaseVersion ex' = Inr (Finite 1)"
    using tb mem ty(1,2) sample_steps_tables(1) sample_old_version by blast
  then have bv: "get_databaseVersion exp = Inr (Finite 1)"
    using bad by auto
  from t [where steps = sample_good_steps and ?ex2.0 = ex2] m r(1) v dbl sample_old_version
    sample_steps_tables(2)
  have good: "get_databaseVersion ex1 = Inr (Finite 1)" "get_databaseVersion ex2 = Inr (Finite 2)"
    by auto
  have tabs: "step_table (MigrationStep ''create_table'' ''comments'' sample_columns) \<noteq> ''local_storage''"
    "step_table (MigrationStep ''rename_column'' ''tasks'' []) \<noteq> ''local_storage''"
    "step_table (MigrationStep ''add_columns'' ''tasks'' sample_columns) \<noteq> ''local_storage''"
    by simp_all
  let ?open = "openDatabase sample_migrating_executor sample_loaded_old"
  have o: "get_databaseVersion ?open = Inr (Finite 1)"
    "version (schema ?open) = 2" "getMigrationSteps ?open 1 = Some sample_good_steps"
    by (simp_all add: get_databaseVersion_def getLocal_def findLocal_def lookupCollection_def
        local_by_key_def SCHEMA_VERSION_KEY_def falsy_def toString_val_def parseInt_def
        isWhiteSpace_def isDigit_def digitValue_def toDouble_def round53_def
        getMigrationSteps_def openDatabase_def sample_defs)
  from migrate_failure_keeps_version [where sv = sample_value_sanitizer and ex = ?open
      and d = 1 and steps = sample_good_steps] o
  have mi: "migrateIfNeeded sample_value_sanitizer ?open =
      migrate sample_value_sanitizer ?open sample_good_steps"
    by simp
  show ?thesis
    using mem sample_old_version v dbl bad bv r(1) m good tabs o mi by blast
qed

subsection \<open>Set-up\<close>

lemma addCollections_frame:
  "schema (foldl (\<lambda>e tableSchema.
       executor_addCollection e (table_name tableSchema) (columns tableSchema)) ex ts) = schema ex"
  by (induction ts arbitrary: ex) (simp_all add: executor_addCollection_frame)

lemma setUpSchema_version:
  assumes "setUpSchema ex = Inr ex'"
    and "round53 (nat \<bar>version (schema ex)\<bar>) = nat \<bar>version (schema ex)\<bar>"
    and "\<bar>version (schema ex)\<bar> < 10 ^ 21"
  shows "get_databaseVersion ex' = Inr (Finite (version (schema ex))) \<and> schema ex' = schema ex"
proof -
  let ?ex1 = "foldl (\<lambda>e tableSchema.
       executor_addCollection e (table_name tableSchema) (columns tableSchema))
       ex (map snd (tables (schema ex)))"
  let ?ex2 = "?ex1\<lparr>loki := addLocalStorage (loki ?ex1)\<rparr>"
  have s: "schema ?ex2 = schema ex" by (simp add: addCollections_frame)
  have r: "set_databaseVersion ?ex2 (version (schema ex)) = Inr ex'"
    using assms(1) s by (simp add: setUpSchema_def Let_def)
  have "schema ex' = schema ?ex2"
    using r setLocal_frame [of ?ex2 SCHEMA_VERSION_KEY _ ex'] by (simp add: set_databaseVersion_def)
  then show ?thesis using get_databaseVersion_set [OF r assms(2,3)] s by simp
qed

lemma unsafeResetDatabase_version:
  assumes "unsafeResetDatabase ex = Inr ex'"
    and "round53 (nat \<bar>version (schema ex)\<bar>) = nat \<bar>version (schema ex)\<bar>"
    and "\<bar>version (schema ex)\<bar> < 10 ^ 21"
  shows "get_databaseVersion ex' = Inr (Finite (version (schema ex))) \<and> schema ex' = schema ex"
  using setUpSchema_version [OF assms(1) [unfolded unsafeResetDatabase_def]] assms(2,3)
  by (simp add: openDatabase_def)

lemma migrate_version:
  assumes "migrate sv ex steps = Inr ex'"
    and "round53 (nat \<bar>version (schema ex)\<bar>) = nat \<bar>version (schema ex)\<bar>"
    and "\<bar>version (schema ex)\<bar> < 10 ^ 21"
  shows "get_databaseVersion ex' = Inr (Finite (version (schema ex))) \<and> schema ex' = schema ex"
proof -
  from migrate_success [OF assms(1)] obtain ex1 where
    r: "migrate_steps sv ex steps = Inr ex1" "schema ex1 = schema ex"
      "set_databaseVersion ex1 (version (schema ex)) = Inr ex'"
    by blast
  have "schema ex' = schema ex1"
    using r(3) setLocal_frame [of ex1 SCHEMA_VERSION_KEY _ ex'] by (simp add: set_databaseVersion_def)
  then show ?thesis using get_databaseVersion_set [OF r(3) assms(2,3)] r(2) by simp
qed

lemma migrateIfNeeded_version:
  assumes "migrateIfNeeded sv ex = Inr ex'"
    and "round53 (nat \<bar>version (schema ex)\<bar>) = nat \<bar>version (schema ex)\<bar>"
    and "\<bar>version (schema ex)\<bar> < 10 ^ 21"
  shows "get_databaseVersion ex' = Inr (Finite (version (schema ex))) \<and> schema ex' = schema ex"
proof (cases "get_databaseVersion ex = Inr (Finite (version (schema ex)))")
  case True
  then show ?thesis using assms(1) by (simp add: migrateIfNeeded_def)
next
  case False
  consider (reset) "unsafeResetDatabase ex = Inr ex'"
    | (mig) steps where "migrate sv ex steps = Inr ex'"
    using assms(1) False
    by (auto simp: migrateIfNeeded_def Let_def
        split: if_splits option.splits sum.splits jsnumber.splits)
  then show ?thesis
  proof cases
    case reset
    then show ?thesis using assms(2,3) by (rule unsafeResetDatabase_version)
  next
    case mig
    then show ?thesis using assms(2,3) by (rule migrate_version)
  qed
qed

text \<open>
  Claim C5, as the code has it. After a \<open>setUp\<close> that returns, whichever branch of
  \<open>migrateIfNeeded\<close> ran, the version read from the local storage is the version of the
  schema the executor holds, when that version is a number below \<open>10 ^ 21\<close> in absolute
  value; and the schema is the one the executor was constructed with.
\<close>

theorem setUp_version:
  assumes "setUp sv ex loaded = Inr ex'"
    and "round53 (nat \<bar>version (schema ex)\<bar>) = nat \<bar>version (schema ex)\<bar>"
    and "\<bar>version (schema ex)\<bar> < 10 ^ 21"
  shows "get_databaseVersion ex' = Inr (Finite (version (schema ex))) \<and> schema ex' = schema ex"
  using migrateIfNeeded_version [OF assms(1) [unfolded setUp_def]] assms(2,3)
  by (simp add: openDatabase_def)

text \<open>
  The claim as the specification states it fails for a schema of version \<open>10 ^ 21\<close>, which
  is a double. On a new database the set-up takes the branch of the reset and returns;
  the setter has stored what the template literal prints, \<^verbatim>\<open>1e+21\<close>, and the version
  read is \<open>1\<close>.
\<close>

theorem setUp_version_counterexample:
  "version (schema sample_huge_executor) = 1000000000000000000000
   \<and> round53 1000000000000000000000 = 1000000000000000000000
   \<and> setUp sample_value_sanitizer sample_huge_executor emptyLoki = Inr sample_huge_result
   \<and> getLocal sample_huge_result SCHEMA_VERSION_KEY = Inr (Some (Str ''1e+21''))
   \<and> get_databaseVersion sample_huge_result = Inr (Finite 1)"
proof -
  have v: "get_databaseVersion (openDatabase sample_huge_executor emptyLoki) = Inr (Finite 0)"
    by (simp add: get_databaseVersion_def getLocal_def findLocal_def lookupCollection_def
        toString_val_def parseInt_empty openDatabase_def emptyLoki_def sample_defs)
  have r: "unsafeResetDatabase (openDatabase sample_huge_executor emptyLoki) =
      Inr sample_huge_result"
    by (simp add: unsafeResetDatabase_def openDatabase_def setUpSchema_def
        executor_addCollection_def addCollection_def addLocalStorage_def setCollection_def
        lookupCollection_def emptyLoki_def set_databaseVersion_def numberToString_1e21
        setLocal_def findLocal_def local_by_key_def local_insert_def key_taken_def
        with_local_def SCHEMA_VERSION_KEY_def Let_def sample_defs)
  have s: "version (schema (openDatabase sample_huge_executor emptyLoki)) =
      1000000000000000000000"
    by (simp add: openDatabase_def sample_defs)
  have a: "setUp sample_value_sanitizer sample_huge_executor emptyLoki = Inr sample_huge_result"
    by (simp add: setUp_def migrateIfNeeded_def v r s Let_def)
  have b: "getLocal sample_huge_result SCHEMA_VERSION_KEY = Inr (Some (Str ''1e+21''))"
    by (simp add: getLocal_def findLocal_def lookupCollection_def local_by_key_def
        SCHEMA_VERSION_KEY_def sample_defs)
  have c: "get_databaseVersion sample_huge_result = Inr (Finite 1)"
    by (simp add: get_databaseVersion_def b falsy_def toString_val_def parseInt_1e21)
  have d: "version (schema sample_huge_executor) = 1000000000000000000000"
    by (simp add: sample_defs)
  show ?thesis using a b c d round53_1e21 by simp
qed

lemma sample_versions:
  "get_databaseVersion (openDatabase sample_executor sample_loaded_current) = Inr (Finite 2)"
  "get_databaseVersion (openDatabase sample_executor emptyLoki) = Inr (Finite 0)"
  "get_databaseVersion (openDatabase sample_migrating_executor sample_loaded_old) =
     Inr (Finite 1)"
  "version (schema sample_executor) = 2"
  "version (schema sample_migrating_executor) = 2"
  by (simp_all add: get_databaseVersion_def getLocal_def findLocal_def lookupCollection_def
      local_by_key_def SCHEMA_VERSION_KEY_def falsy_def toString_val_def parseInt_def
      isWhiteSpace_def isDigit_def digitValue_def toDouble_def round53_def openDatabase_def
      emptyLoki_def sample_defs)

lemma sample_reset_runs:
  "\<exists>ex'. unsafeResetDatabase (openDatabase sample_executor emptyLoki) = Inr ex'"
  unfolding unsafeResetDatabase_def setUpSchema_def Let_def set_databaseVersion_def
  by (rule setLocal_total [where l = sample_local_empty])
    (simp add: openDatabase_def executor_addCollection_def addCollection_def
      addLocalStorage_def setCollection_def lookupCollection_def emptyLoki_def Let_def
      sample_defs)

lemma sample_migration_runs:
  "\<exists>ex'. setUp sample_value_sanitizer sample_migrating_executor sample_loaded_old = Inr ex'"
proof -
  let ?ex = "openDatabase sample_migrating_executor sample_loaded_old"
  have st: "getMigrationSteps ?ex 1 = Some sample_good_steps"
    by (simp add: getMigrationSteps_def openDatabase_def sample_defs)
  have sc: "version (schema ?ex) = 2" by (simp add: openDatabase_def sample_defs)
  have ls: "lookupCollection (loki ?ex) ''local_storage'' =
      KeyValueCollection (sample_marker ''1'')"
    by (simp add: lookupCollection_def openDatabase_def sample_defs)
  have "\<exists>ex1. migrate_steps sample_value_sanitizer ?ex sample_good_steps = Inr ex1"
    by (simp add: migrate_step_def executeCreateTableMigration_def
      executeAddColumnsMigration_def executor_addCollection_def addCollection_def
      lookupCollection_def setCollection_def getCollection_def Let_def sample_good_steps_def
      openDatabase_def sample_migrating_executor_def sample_loaded_old_def sample_executor_def)
  then obtain ex1 where r: "migrate_steps sample_value_sanitizer ?ex sample_good_steps = Inr ex1"
    by blast
  from migrate_steps_local [of sample_value_sanitizer ?ex sample_good_steps ex1] r ls
    sample_steps_tables(2)
  have "lookupCollection (loki ex1) ''local_storage'' = KeyValueCollection (sample_marker ''1'')"
    by simp
  then have "\<exists>ex'. migrate sample_value_sanitizer ?ex sample_good_steps = Inr ex'"
    using r setLocal_total [of ex1 _ SCHEMA_VERSION_KEY]
    by (auto simp: migrate_def set_databaseVersion_def)
  then show ?thesis
    using st sc sample_versions(3) by (simp add: setUp_def migrateIfNeeded_def Let_def)
qed

theorem setUp_version_witness:
  "version (schema sample_executor) = 2
   \<and> version (schema sample_migrating_executor) = 2
   \<and> round53 (nat \<bar>2\<bar>) = nat \<bar>2\<bar> \<and> \<bar>2::int\<bar> < 10 ^ 21
   \<and> setUp sample_value_sanitizer sample_executor sample_loaded_current =
       Inr (openDatabase sample_executor sample_loaded_current)
   \<and> get_databaseVersion (openDatabase sample_executor sample_loaded_current) = Inr (Finite 2)
   \<and> (\<exists>ex'. setUp sample_value_sanitizer sample_executor emptyLoki = Inr ex'
         \<and> get_databaseVersion ex' = Inr (Finite 2))
   \<and> (\<exists>ex'. setUp sample_value_sanitizer sample_migrating_executor sample_loaded_old = Inr ex'
         \<and> get_databaseVersion ex' = Inr (Finite 2))"
proof -
  have dbl: "round53 (nat \<bar>2\<bar>) = nat \<bar>2\<bar>" "\<bar>2::int\<bar> < 10 ^ 21"
    by (simp_all add: round53_def)
  have d1: "round53 (nat \<bar>version (schema sample_executor)\<bar>) =
      nat \<bar>version (schema sample_executor)\<bar>"
    "\<bar>version (schema sample_executor)\<bar> < 10 ^ 21"
    "round53 (nat \<bar>version (schema sample_migrating_executor)\<bar>) =
      nat \<bar>version (schema sample_migrating_executor)\<bar>"
    "\<bar>version (schema sample_migrating_executor)\<bar> < 10 ^ 21"
    unfolding sample_versions(4,5) by (simp_all add: round53_def)
  have noop: "setUp sample_value_sanitizer sample_executor sample_loaded_current =
       Inr (openDatabase sample_executor sample_loaded_current)"
    using sample_versions(1,4) by (simp add: setUp_def migrateIfNeeded_def openDatabase_def)
  have "setUp sample_value_sanitizer sample_executor emptyLoki =
      unsafeResetDatabase (openDatabase sample_executor emptyLoki)"
    using sample_versions(2,4) by (simp add: setUp_def migrateIfNeeded_def openDatabase_def)
  then obtain exr where
    reset: "setUp sample_value_sanitizer sample_executor emptyLoki = Inr exr"
    using sample_reset_runs by auto
  from sample_migration_runs obtain exm where
    mig: "setUp sample_value_sanitizer sample_migrating_executor sample_loaded_old = Inr exm"
    by blast
  show ?thesis
    using setUp_version [OF noop d1(1,2)] setUp_version [OF reset d1(1,2)]
      setUp_version [OF mig d1(3,4)] noop reset mig sample_versions(4,5) dbl
    by auto
qed

end
